theory Spec2Isabelle
  imports Main "HOL-Library.Sublist" "HOL-Library.Product_Lexorder"
begin

section \<open>Tables, rows and SQL values\<close>

text \<open>
  Both scripts hand every decision about the data to the relational engine: the Python code
  only builds SQL text and looks at what comes back. The embedding therefore has two layers:
  the SQL statements of the scripts as functions on tables (this section and the next), and
  the Python control flow around them (connection, loop over the configured sections,
  exception handlers, notifications) as functions on a session state.

  A column value is an integer or SQL \<open>NULL\<close> (\<open>None\<close>); a date is the integer that orders
  it (2024-01-01 is 20240101). A row is seen through the three things the statements look
  at: its \<open>dateCreated\<close> column, its value in the configured \<open>unique_key\<close> column
  (\<open>row_key\<close>), and the rest of its columns (\<open>payload\<close>). A table is the list of its rows in
  the engine's physical order; the order only serves to make the engine's free choices (which
  of two equal-ranked rows comes first) definite; the general properties below do not depend
  on it.
\<close>

type_synonym sqlval = "int option"

record row =
  dateCreated :: sqlval
  row_key :: sqlval
  payload :: string

text \<open>
  \<open>ORDER BY x\<close> ascending puts \<open>NULL\<close> last, \<open>ORDER BY x DESC\<close> puts it first (the engine's
  defaults). Both orders are given by a rank, so that the library's stable \<open>sort_key\<close> can
  be used.
\<close>

definition asc_rank :: "sqlval \<Rightarrow> nat \<times> int" where
  "asc_rank v = (case v of None \<Rightarrow> (1, 0) | Some x \<Rightarrow> (0, x))"

definition desc_rank :: "sqlval \<Rightarrow> nat \<times> int" where
  "desc_rank v = (case v of None \<Rightarrow> (0, 0) | Some x \<Rightarrow> (1, - x))"

text \<open>
  The comparison \<open>a = b\<close> of a \<open>WHERE\<close> clause: it is true only for two equal non-\<open>NULL\<close>
  values (a comparison with \<open>NULL\<close> is unknown, and unknown does not select the row).
  \<open>GROUP BY\<close> and \<open>PARTITION BY\<close>, in contrast, put all \<open>NULL\<close>s into one group, which is
  HOL's equality on \<open>sqlval\<close>.
\<close>

definition sql_eq :: "sqlval \<Rightarrow> sqlval \<Rightarrow> bool" where
  "sql_eq a b = (case a of None \<Rightarrow> False | Some x \<Rightarrow> (case b of None \<Rightarrow> False | Some y \<Rightarrow> x = y))"

section \<open>The SQL statements of the two scripts\<close>

subsection \<open>Duplicate detection (\<open>check_for_duplicates\<close>, and the checker's inline query)\<close>

text \<open>
  \<^verbatim>\<open>SELECT dateCreated, {unique_key}, COUNT(*) FROM {db_table}
  GROUP BY dateCreated, {unique_key} HAVING COUNT(*) > 1 ORDER BY dateCreated DESC;\<close>
\<close>

type_synonym dup_row = "sqlval \<times> sqlval \<times> nat"

definition group_count :: "row list \<Rightarrow> sqlval \<Rightarrow> sqlval \<Rightarrow> nat" where
  "group_count t d k = length (filter (\<lambda>r. dateCreated r = d \<and> row_key r = k) t)"

definition duplicate_check_query :: "row list \<Rightarrow> dup_row list" where
  "duplicate_check_query t =
     sort_key (\<lambda>(d, k, c). desc_rank d)
       (filter (\<lambda>(d, k, c). 1 < c)
          (map (\<lambda>(d, k). (d, k, group_count t d k))
             (remdups (map (\<lambda>r. (dateCreated r, row_key r)) t))))"

subsection \<open>Step 1: staging into the side table\<close>

text \<open>
  \<^verbatim>\<open>WITH duplicates_cte AS (
    SELECT COUNT(*) OVER (PARTITION BY {unique_key}) AS total_duplicates,
           ROW_NUMBER() OVER (PARTITION BY {unique_key} ORDER BY dateCreated) AS duplicate_rn, *
    FROM {db_table})
  SELECT * INTO {db_table}_duplicates FROM duplicates_cte
  WHERE total_duplicates > 1 AND duplicate_rn = 1;\<close>

  A staged row carries the two bookkeeping columns in front of the original row.
\<close>

type_synonym staged_row = "nat \<times> nat \<times> row"

definition key_count :: "row list \<Rightarrow> sqlval \<Rightarrow> nat" where
  "key_count t k = length (filter (\<lambda>r. row_key r = k) t)"

definition partition_rows :: "row list \<Rightarrow> sqlval \<Rightarrow> row list" where
  "partition_rows t k = sort_key (\<lambda>r. asc_rank (dateCreated r)) (filter (\<lambda>r. row_key r = k) t)"

definition number_partition :: "row list \<Rightarrow> staged_row list" where
  "number_partition p = map (\<lambda>(i, r). (length p, Suc i, r)) (enumerate 0 p)"

definition duplicates_cte :: "row list \<Rightarrow> staged_row list" where
  "duplicates_cte t =
     concat (map (\<lambda>k. number_partition (partition_rows t k)) (remdups (map row_key t)))"

definition step1_select :: "row list \<Rightarrow> staged_row list" where
  "step1_select t =
     filter (\<lambda>(total_duplicates, duplicate_rn, r). 1 < total_duplicates \<and> duplicate_rn = 1)
       (duplicates_cte t)"

subsection \<open>Step 2: deleting from the main table\<close>

text \<open>
  \<^verbatim>\<open>DELETE FROM {db_table} USING {db_table}_duplicates
  WHERE {db_table}_duplicates.{unique_key} = {db_table}.{unique_key};\<close>
  A row of the main table goes when some row of the side table has an equal key.
\<close>

definition step2_delete :: "row list \<Rightarrow> sqlval list \<Rightarrow> row list" where
  "step2_delete t keys = filter (\<lambda>r. \<not> list_ex (\<lambda>k. sql_eq k (row_key r)) keys) t"

subsection \<open>Step 3: dropping the bookkeeping columns and inserting back\<close>

text \<open>
  \<^verbatim>\<open>ALTER TABLE {db_table}_duplicates DROP COLUMN total_duplicates;
  ALTER TABLE {db_table}_duplicates DROP COLUMN duplicate_rn;
  INSERT INTO {db_table} SELECT * FROM {db_table}_duplicates;\<close>
\<close>

definition drop_columns :: "staged_row list \<Rightarrow> row list" where
  "drop_columns side = map (\<lambda>(total_duplicates, duplicate_rn, r). r) side"

definition step3_insert :: "row list \<Rightarrow> row list \<Rightarrow> row list" where
  "step3_insert t side = t @ side"

section \<open>The database\<close>

text \<open>
  The side table \<open>{db_table}_duplicates\<close> has the bookkeeping columns from step 1 until
  step 3 drops them. The database maps the qualified name of a configured table to its rows,
  and to its side table when that exists. (A configured table that is itself named like
  another table's side table is outside this model.)
\<close>

datatype side_table = Staged "staged_row list" | Stripped "row list"

fun side_keys :: "side_table \<Rightarrow> sqlval list" where
  "side_keys (Staged side) = map (\<lambda>(total_duplicates, duplicate_rn, r). row_key r) side"
| "side_keys (Stripped side) = map row_key side"

record database =
  tables :: "string \<rightharpoonup> row list"
  sides :: "string \<rightharpoonup> side_table"

text \<open>
  The statements the scripts send. \<open>Detect\<close>, \<open>Stage\<close> and \<open>Delete\<close> name the table and the
  key column, as their SQL text does. \<open>Stage\<close>, \<open>Delete\<close>, \<open>Reinsert\<close> and \<open>DropSide\<close> are the
  strings \<open>step1_sql\<close> .. \<open>step4_sql\<close>, each of the form \<open>BEGIN; ...; COMMIT;\<close>.
\<close>

datatype stmt =
    Detect string string
  | Stage string string
  | Delete string string
  | Reinsert string
  | DropSide string
  | Rollback

definition no_relation :: "string \<Rightarrow> string" where
  "no_relation t = ''relation '' @ t @ '' does not exist''"

definition relation_exists :: "string \<Rightarrow> string" where
  "relation_exists t = ''relation '' @ t @ '' already exists''"

definition no_column :: "string \<Rightarrow> string \<Rightarrow> string" where
  "no_column c t = ''column '' @ c @ '' of relation '' @ t @ '' does not exist''"

definition side_name :: "string \<Rightarrow> string" where
  "side_name t = t @ ''_duplicates''"

text \<open>
  What a statement does to the database when the engine runs it: the engine's error message,
  or the new database and the rows the cursor can fetch. A statement that fails changes
  nothing: its \<open>BEGIN\<close> opened a transaction that never commits. \<open>SELECT ... INTO\<close> fails
  when its target exists.
\<close>

fun apply_stmt :: "stmt \<Rightarrow> database \<Rightarrow> string + (database \<times> dup_row list)" where
  "apply_stmt (Detect t c) d =
     (case tables d t of
        None \<Rightarrow> Inl (no_relation t)
      | Some rows \<Rightarrow> Inr (d, duplicate_check_query rows))"
| "apply_stmt (Stage t c) d =
     (case tables d t of
        None \<Rightarrow> Inl (no_relation t)
      | Some rows \<Rightarrow>
          (case sides d t of
             Some side \<Rightarrow> Inl (relation_exists (side_name t))
           | None \<Rightarrow> Inr (d\<lparr>sides := (sides d)(t \<mapsto> Staged (step1_select rows))\<rparr>, [])))"
| "apply_stmt (Delete t c) d =
     (case tables d t of
        None \<Rightarrow> Inl (no_relation t)
      | Some rows \<Rightarrow>
          (case sides d t of
             None \<Rightarrow> Inl (no_relation (side_name t))
           | Some side \<Rightarrow>
               Inr (d\<lparr>tables := (tables d)(t \<mapsto> step2_delete rows (side_keys side))\<rparr>, [])))"
| "apply_stmt (Reinsert t) d =
     (case sides d t of
        None \<Rightarrow> Inl (no_relation (side_name t))
      | Some (Stripped side) \<Rightarrow> Inl (no_column ''total_duplicates'' (side_name t))
      | Some (Staged side) \<Rightarrow>
          (case tables d t of
             None \<Rightarrow> Inl (no_relation t)
           | Some rows \<Rightarrow>
               Inr (d\<lparr>tables := (tables d)(t \<mapsto> step3_insert rows (drop_columns side)),
                      sides := (sides d)(t \<mapsto> Stripped (drop_columns side))\<rparr>, [])))"
| "apply_stmt (DropSide t) d =
     (case sides d t of
        None \<Rightarrow> Inl (no_relation (side_name t))
      | Some side \<Rightarrow> Inr (d\<lparr>sides := (sides d)(t := None)\<rparr>, []))"
| "apply_stmt Rollback d = Inr (d, [])"

section \<open>The outside world and the session\<close>

text \<open>
  What the run cannot decide is a parameter: the parsed ini files by file name (a missing
  file has no sections, as \<open>ConfigParser.read\<close> has it), whether \<open>pg.connect\<close> raises,
  whether the engine or the network fails a statement although the database could run it
  (\<open>stmt_error\<close>, asked with the number of events so far, so that the same statement can fail
  once and pass later), and the clock readings put into the alert texts.

  The session is the database, the cursor's result set, and the trace of what the run did
  that the outside can see: connection calls, statements sent, mails and chat messages
  handed to their transports. Whether a transport delivers is not modelled: \<open>send_email\<close>
  and \<open>send_slack_alert\<close> catch every exception themselves, so the caller continues either
  way. Log lines and prints are left out of the trace.
\<close>

type_synonym ini = "(string \<times> (string \<times> string) list) list"

record world =
  files :: "string \<Rightarrow> ini"
  connect_error :: "string option"
  stmt_error :: "nat \<Rightarrow> stmt \<Rightarrow> string option"
  now :: "nat \<Rightarrow> nat \<Rightarrow> string"

datatype event =
    Connect
  | Close
  | ConnCommit
  | ConnRollback
  | Execute stmt
  | Email string string
  | Slack string string

record session =
  db :: database
  cursor :: "dup_row list"
  trace :: "event list"

type_synonym 'a raises = "(string \<times> session) + 'a"

text \<open>
  \<open>cur.execute(q)\<close>: the statement is sent; it raises (\<open>Inl\<close>, with the message and the
  session at that point) or the database and the cursor change.
\<close>

definition execute :: "world \<Rightarrow> stmt \<Rightarrow> session \<Rightarrow> session raises" where
  "execute w q s =
     (let s1 = s\<lparr>trace := trace s @ [Execute q]\<rparr> in
      case stmt_error w (length (trace s)) q of
        Some e \<Rightarrow> Inl (e, s1)
      | None \<Rightarrow>
          (case apply_stmt q (db s) of
             Inl e \<Rightarrow> Inl (e, s1)
           | Inr (d, rows) \<Rightarrow> Inr (s1\<lparr>db := d, cursor := rows\<rparr>)))"

text \<open>\<open>server_config(filename, section)\<close>, the same in both scripts.\<close>

definition server_config :: "world \<Rightarrow> string \<Rightarrow> string \<Rightarrow> string + (string \<rightharpoonup> string)" where
  "server_config w filename section =
     (case map_of (files w filename) section of
        Some params \<Rightarrow> Inr (map_of (rev params))
      | None \<Rightarrow> Inl (''Section '' @ section @ '' not found in the '' @ filename @ '' file''))"

text \<open>\<open>config[key]\<close>: the value, or \<open>KeyError\<close>, whose text is the quoted key.\<close>

definition getitem :: "(string \<rightharpoonup> string) \<Rightarrow> string \<Rightarrow> string + string" where
  "getitem config key =
     (case config key of
        None \<Rightarrow> Inl ([CHR 0x27] @ key @ [CHR 0x27])
      | Some v \<Rightarrow> Inr v)"

section \<open>\<open>Remove_Duplicates.py\<close>\<close>

definition send_email :: "string \<Rightarrow> string \<Rightarrow> session \<Rightarrow> session" where
  "send_email subject body s = s\<lparr>trace := trace s @ [Email subject body]\<rparr>"

definition check_for_duplicates ::
    "world \<Rightarrow> session \<Rightarrow> string \<Rightarrow> string \<Rightarrow> dup_row list option \<times> session" where
  "check_for_duplicates w s db_table unique_key =
     (case execute w (Detect db_table unique_key) s of
        Inr s1 \<Rightarrow> (Some (cursor s1), s1)
      | Inl (e, s1) \<Rightarrow>
          (None, send_email ''Error Checking Duplicates''
                   (''Error checking duplicates in '' @ db_table @ '': '' @ e) s1))"

text \<open>
  The \<open>try\<close> body of \<open>remove_duplicates_from_table\<close>: the four steps and the success mail.
  \<open>Inr\<close> is the sequence completed; \<open>Inl\<close> is the exception of the first step that failed.
\<close>

definition removal_steps :: "world \<Rightarrow> session \<Rightarrow> string \<Rightarrow> string \<Rightarrow> session raises" where
  "removal_steps w s db_table unique_key =
     (case execute w (Stage db_table unique_key) s of
        Inl x \<Rightarrow> Inl x
      | Inr s1 \<Rightarrow>
     (case execute w (Delete db_table unique_key) s1 of
        Inl x \<Rightarrow> Inl x
      | Inr s2 \<Rightarrow>
     (case execute w (Reinsert db_table) s2 of
        Inl x \<Rightarrow> Inl x
      | Inr s3 \<Rightarrow>
     (case execute w (DropSide db_table) s3 of
        Inl x \<Rightarrow> Inl x
      | Inr s4 \<Rightarrow>
          Inr (send_email (''Duplicate Removal Notification for '' @ db_table)
                 (''Duplicates have been successfully removed from '' @ db_table @ ''.'') s4)))))"

text \<open>
  The whole function: on an exception the handler mails and sends \<open>ROLLBACK;\<close>. The handler
  is not protected itself, so a failing \<open>ROLLBACK;\<close> leaves the function as an exception.
\<close>

definition remove_duplicates_from_table ::
    "world \<Rightarrow> session \<Rightarrow> string \<Rightarrow> string \<Rightarrow> session raises" where
  "remove_duplicates_from_table w s db_table unique_key =
     (case removal_steps w s db_table unique_key of
        Inr s' \<Rightarrow> Inr s'
      | Inl (e, s1) \<Rightarrow>
          execute w Rollback
            (send_email ''Error Removing Duplicates''
               (''Error processing steps for '' @ db_table @ '': '' @ e) s1))"

text \<open>
  The body of the loop of \<open>remove_duplicates\<close>, in two parts: \<open>process_table\<close> is the check
  and the removal once the names are known, \<open>process_section\<close> reads them from the section
  first. \<open>if duplicate_keys:\<close> is false for \<open>None\<close> and for the empty list.
\<close>

definition truthy :: "dup_row list option \<Rightarrow> bool" where
  "truthy duplicate_keys = (case duplicate_keys of None \<Rightarrow> False | Some rows \<Rightarrow> rows \<noteq> [])"

definition process_table :: "world \<Rightarrow> session \<Rightarrow> string \<Rightarrow> string \<Rightarrow> session raises" where
  "process_table w s db_table unique_key =
     (case check_for_duplicates w s db_table unique_key of
        (duplicate_keys, s1) \<Rightarrow>
          if truthy duplicate_keys
          then remove_duplicates_from_table w s1 db_table unique_key
          else Inr s1)"

definition process_section :: "world \<Rightarrow> string \<Rightarrow> session \<Rightarrow> session raises" where
  "process_section w section s =
     (case server_config w ''r_duplicates.ini'' section of
        Inl e \<Rightarrow> Inl (e, s)
      | Inr table_config \<Rightarrow>
     (case getitem table_config ''table'' of
        Inl e \<Rightarrow> Inl (e, s)
      | Inr table_name \<Rightarrow>
     (case getitem table_config ''unique_key'' of
        Inl e \<Rightarrow> Inl (e, s)
      | Inr unique_key \<Rightarrow>
     (case getitem table_config ''database'' of
        Inl e \<Rightarrow> Inl (e, s)
      | Inr database \<Rightarrow>
          process_table w s (database @ ''.'' @ table_name) unique_key))))"

fun process_sections :: "world \<Rightarrow> string list \<Rightarrow> session \<Rightarrow> session raises" where
  "process_sections w [] s = Inr s"
| "process_sections w (section # rest) s =
     (if prefix ''yoda_hub'' section
      then (case process_section w section s of
              Inl x \<Rightarrow> Inl x
            | Inr s1 \<Rightarrow> process_sections w rest s1)
      else process_sections w rest s)"

text \<open>
  \<open>remove_duplicates()\<close>. The connection section is read before the \<open>try\<close>: when it is
  missing the exception leaves the function (\<open>Inl\<close>) and nothing else happens. Inside the
  \<open>try\<close>, every exception ends in the handler's mail; \<open>finally\<close> closes the connection if it
  was opened.
\<close>

definition start :: "database \<Rightarrow> session" where
  "start d = \<lparr>db = d, cursor = [], trace = []\<rparr>"

definition remove_duplicates_try :: "world \<Rightarrow> (string \<rightharpoonup> string) \<Rightarrow> session \<Rightarrow> session raises \<times> bool" where
  "remove_duplicates_try w config s =
     (case getitem config ''host'' of
        Inl e \<Rightarrow> (Inl (e, s), False)
      | Inr host \<Rightarrow>
     (case getitem config ''database'' of
        Inl e \<Rightarrow> (Inl (e, s), False)
      | Inr database \<Rightarrow>
     (case connect_error w of
        Some e \<Rightarrow> (Inl (e, s), False)
      | None \<Rightarrow>
          (process_sections w (map fst (files w ''r_duplicates.ini''))
             (s\<lparr>trace := trace s @ [Connect]\<rparr>), True))))"

definition remove_duplicates :: "world \<Rightarrow> database \<Rightarrow> string + session" where
  "remove_duplicates w d =
     (case server_config w ''r_duplicates.ini'' ''yoda_r_lake'' of
        Inl e \<Rightarrow> Inl e
      | Inr config \<Rightarrow>
          (case remove_duplicates_try w config (start d) of
             (outcome, conn) \<Rightarrow>
               let s1 = (case outcome of
                           Inr s \<Rightarrow> s
                         | Inl (e, s) \<Rightarrow>
                             send_email ''Error in Duplicate Removal Process''
                               (''Failed to process: '' @ e) s)
               in Inr (if conn then s1\<lparr>trace := trace s1 @ [Close]\<rparr> else s1)))"

section \<open>\<open>Check_Duplicates.py\<close>\<close>

text \<open>Python's \<open>str\<close> of a non-negative integer, and the newline of the f-strings.\<close>

function str_nat :: "nat \<Rightarrow> string" where
  "str_nat n =
     (if n < 10 then [''0123456789'' ! n]
      else str_nat (n div 10) @ [''0123456789'' ! (n mod 10)])"
  by pat_completeness auto
termination
  by (relation "measure id") auto

declare str_nat.simps [simp del]

definition nl :: string where
  "nl = [CHR 0x0A]"

definition send_email_checker :: "string \<Rightarrow> string \<Rightarrow> (string \<rightharpoonup> string) \<Rightarrow> session \<Rightarrow> session" where
  "send_email_checker subject body email_config s = s\<lparr>trace := trace s @ [Email subject body]\<rparr>"

definition send_slack_alert :: "string \<Rightarrow> string \<Rightarrow> session \<Rightarrow> session" where
  "send_slack_alert message slack_webhook_url s =
     s\<lparr>trace := trace s @ [Slack slack_webhook_url message]\<rparr>"

definition get_table_config :: "world \<Rightarrow> string \<Rightarrow> string + (string \<rightharpoonup> string)" where
  "get_table_config w section = server_config w ''/r_duplicates.ini'' section"

text \<open>
  \<open>grouped_duplicates\<close> is a dictionary from a duplicate count to the keys of the groups
  with that count, filled by \<open>setdefault(duplicate_count, []).append(row_key)\<close>. Python
  dictionaries keep the order in which keys were first inserted, and
  \<open>print_duplicate_info\<close> iterates in that order, so it is an association list here.
\<close>

fun setdefault_append :: "(nat \<times> sqlval list) list \<Rightarrow> nat \<Rightarrow> sqlval \<Rightarrow> (nat \<times> sqlval list) list" where
  "setdefault_append [] duplicate_count key = [(duplicate_count, [key])]"
| "setdefault_append ((c, keys) # grouped) duplicate_count key =
     (if c = duplicate_count then (c, keys @ [key]) # grouped
      else (c, keys) # setdefault_append grouped duplicate_count key)"

definition group_duplicates :: "dup_row list \<Rightarrow> (nat \<times> sqlval list) list" where
  "group_duplicates duplicate_results =
     foldl (\<lambda>grouped (date_created, key, duplicate_count).
              setdefault_append grouped duplicate_count key) [] duplicate_results"

definition affected_line :: "nat \<Rightarrow> nat \<Rightarrow> string" where
  "affected_line n duplicate_count =
     str_nat n @ '' row(s) affected: with '' @ str_nat duplicate_count @ '' duplicates per row'' @ nl"

definition print_duplicate_info :: "string \<Rightarrow> string \<Rightarrow> (nat \<times> sqlval list) list \<Rightarrow> string" where
  "print_duplicate_info database_name table_name grouped_duplicates =
     nl @ ''Duplicates found in '' @ database_name @ ''.'' @ table_name @ '':'' @ nl @
     concat (map (\<lambda>(duplicate_count, rows). affected_line (length rows) duplicate_count)
               grouped_duplicates)"

text \<open>The three f-strings of \<open>get_duplicates_and_alert\<close>; \<open>ts\<close> is the clock reading.\<close>

definition alert_subject :: "string \<Rightarrow> string \<Rightarrow> string \<Rightarrow> string" where
  "alert_subject database_name table_name ts =
     ''Duplicate(s) found in '' @ database_name @ ''.'' @ table_name @ '' at '' @ ts"

definition alert_text ::
    "string \<Rightarrow> string \<Rightarrow> string \<Rightarrow> string \<Rightarrow> string \<Rightarrow> string \<Rightarrow> nat \<Rightarrow> string" where
  "alert_text database_name table_name ts host_name replication_task unique_key total_rows =
     ''Duplicate(s) found in '' @ database_name @ ''.'' @ table_name @ '' at '' @ ts @ ''.'' @ nl @ nl @
     ''DETAILS:'' @ nl @
     ''Source Host: '' @ host_name @ nl @
     ''Source Replication Task: '' @ replication_task @ nl @
     ''Source Database: '' @ database_name @ nl @
     ''Source Table: '' @ table_name @ nl @
     ''Source Column: '' @ unique_key @ nl @ nl @
     ''Total number of rows = '' @ str_nat total_rows @ nl @ nl"

definition slack_text :: "string \<Rightarrow> string \<Rightarrow> string \<Rightarrow> string" where
  "slack_text database_name table_name output_text =
     ''Alert: Duplicates found in '' @ database_name @ ''.'' @ table_name @ '':'' @ nl @ output_text"

text \<open>
  The body of the checker's loop once the section is read (\<open>check_table\<close>), and with the
  reading (\<open>check_section\<close>). Nothing here catches an exception: a failing query leaves the
  loop.
\<close>

definition check_table ::
    "world \<Rightarrow> session \<Rightarrow> (string \<rightharpoonup> string) \<Rightarrow> string \<Rightarrow> string \<Rightarrow> string \<Rightarrow> string \<Rightarrow> string \<Rightarrow> string
      \<Rightarrow> session raises" where
  "check_table w s email_config slack_webhook_url unique_key database_name table_name host_name
       replication_task =
     (case execute w (Detect (database_name @ ''.'' @ table_name) unique_key) s of
        Inl x \<Rightarrow> Inl x
      | Inr s1 \<Rightarrow>
          (let duplicate_results = cursor s1 in
           if duplicate_results \<noteq> [] then
             (let total_rows = length duplicate_results;
                  grouped_duplicates = group_duplicates duplicate_results;
                  subject = alert_subject database_name table_name (now w (length (trace s1)) 0);
                  body = alert_text database_name table_name (now w (length (trace s1)) 1)
                           host_name replication_task unique_key total_rows;
                  output_text = print_duplicate_info database_name table_name grouped_duplicates
              in Inr (send_slack_alert (slack_text database_name table_name output_text)
                        slack_webhook_url
                        (send_email_checker subject (body @ output_text) email_config s1)))
           else Inr s1))"

definition check_section ::
    "world \<Rightarrow> (string \<rightharpoonup> string) \<Rightarrow> string \<Rightarrow> string \<Rightarrow> session \<Rightarrow> session raises" where
  "check_section w email_config slack_webhook_url section s =
     (case get_table_config w section of
        Inl e \<Rightarrow> Inl (e, s)
      | Inr table_config \<Rightarrow>
     (case getitem table_config ''unique_key'' of
        Inl e \<Rightarrow> Inl (e, s)
      | Inr unique_key \<Rightarrow>
     (case getitem table_config ''database'' of
        Inl e \<Rightarrow> Inl (e, s)
      | Inr database_name \<Rightarrow>
     (case getitem table_config ''table'' of
        Inl e \<Rightarrow> Inl (e, s)
      | Inr table_name \<Rightarrow>
     (case getitem table_config ''host'' of
        Inl e \<Rightarrow> Inl (e, s)
      | Inr host_name \<Rightarrow>
     (case getitem table_config ''replication_task'' of
        Inl e \<Rightarrow> Inl (e, s)
      | Inr replication_task \<Rightarrow>
          check_table w s email_config slack_webhook_url unique_key database_name table_name
            host_name replication_task))))))"

fun check_sections ::
    "world \<Rightarrow> (string \<rightharpoonup> string) \<Rightarrow> string \<Rightarrow> string list \<Rightarrow> session \<Rightarrow> session raises" where
  "check_sections w email_config slack_webhook_url [] s = Inr s"
| "check_sections w email_config slack_webhook_url (section # rest) s =
     (if prefix ''yoda_hub'' section
      then (case check_section w email_config slack_webhook_url section s of
              Inl x \<Rightarrow> Inl x
            | Inr s1 \<Rightarrow> check_sections w email_config slack_webhook_url rest s1)
      else check_sections w email_config slack_webhook_url rest s)"

text \<open>
  \<open>get_duplicates_and_alert()\<close>. The mail configuration is read before the \<open>try\<close>, so a
  missing section or webhook entry leaves the function as an exception (\<open>Inl\<close>). The
  \<open>try\<close> has one handler around the connection, the cursor and the whole loop; it only
  logs. \<open>with pg.connect(...) as conn\<close> is psycopg2's connection context: leaving the block
  commits the transaction, leaving it by an exception rolls it back, and in neither case is
  the connection closed. The function never calls \<open>conn.close()\<close>.
\<close>

definition get_duplicates_and_alert :: "world \<Rightarrow> database \<Rightarrow> string + session" where
  "get_duplicates_and_alert w d =
     (case server_config w ''/r_emailConfig.ini'' ''email_config'' of
        Inl e \<Rightarrow> Inl e
      | Inr email_config \<Rightarrow>
     (case getitem email_config ''slack_webhook_url'' of
        Inl e \<Rightarrow> Inl e
      | Inr slack_webhook_url \<Rightarrow>
     (case server_config w ''/r_duplicates.ini'' ''yoda_r_lake'' of
        Inl e \<Rightarrow> Inr (start d)
      | Inr config \<Rightarrow>
     (case connect_error w of
        Some e \<Rightarrow> Inr (start d)
      | None \<Rightarrow>
          (case check_sections w email_config slack_webhook_url
                  (map fst (files w ''/r_duplicates.ini''))
                  ((start d)\<lparr>trace := [Connect]\<rparr>) of
             Inl (e, s) \<Rightarrow> Inr (s\<lparr>trace := trace s @ [ConnRollback]\<rparr>)
           | Inr s \<Rightarrow> Inr (s\<lparr>trace := trace s @ [ConnCommit]\<rparr>))))))"

section \<open>Observing a run\<close>

text \<open>
  \<open>returned\<close> is the session a call ended in when it returned normally; \<open>state_of\<close> is the
  session a call ended in, whether it returned or raised. \<open>extends s s'\<close> says that \<open>s'\<close>
  continues the trace of \<open>s\<close> by events that are statements, mails or chat messages.
\<close>

definition returned :: "'e + session \<Rightarrow> session option" where
  "returned r = (case r of Inl e \<Rightarrow> None | Inr s \<Rightarrow> Some s)"

definition state_of :: "session raises \<Rightarrow> session" where
  "state_of r = (case r of Inl (e, s) \<Rightarrow> s | Inr s \<Rightarrow> s)"

definition conn_event :: "event \<Rightarrow> bool" where
  "conn_event e = (e = Connect \<or> e = Close \<or> e = ConnCommit \<or> e = ConnRollback)"

definition extends :: "session \<Rightarrow> session \<Rightarrow> bool" where
  "extends s s' = (\<exists>new. trace s' = trace s @ new \<and> list_all (\<lambda>e. \<not> conn_event e) new)"

text \<open>
  Two notions for stating what the four steps compute together: the keys that step 1 finds
  repeated, and the main table after steps 1 to 3 have run on it.
\<close>

definition dup_keys :: "row list \<Rightarrow> sqlval list" where
  "dup_keys t = filter (\<lambda>k. 1 < key_count t k) (remdups (map row_key t))"

definition after_removal :: "row list \<Rightarrow> row list" where
  "after_removal t =
     step3_insert (step2_delete t (side_keys (Staged (step1_select t))))
       (drop_columns (step1_select t))"

text \<open>Running the remover and then running it again on the database the first run left.\<close>

definition remove_duplicates_twice :: "world \<Rightarrow> world \<Rightarrow> database \<Rightarrow> string + session" where
  "remove_duplicates_twice w1 w2 d =
     (case remove_duplicates w1 d of
        Inl e \<Rightarrow> Inl e
      | Inr s1 \<Rightarrow> remove_duplicates w2 (db s1))"

text \<open>The number of duplicate groups with a given count, for stating the summary lines.\<close>

definition groups_with :: "nat \<Rightarrow> dup_row list \<Rightarrow> nat" where
  "groups_with n results = length (filter (\<lambda>(d, k, c). c = n) results)"

text \<open>
  Notions for comparing two runs. \<open>removal_stmt\<close> singles out the four steps among the
  events. A table is \<open>clean\<close> when it is missing or its detection query returns nothing. A
  database is \<open>tidy\<close> when no side table is left in it and no row has a \<open>NULL\<close> key; a world
  is a \<open>calm_world\<close> when it fails no statement. \<open>section_table\<close> is what the remover's loop
  reads from a section, \<open>visited\<close> are the tables of the sections the loop reaches before a
  section is incomplete, and \<open>connects\<close> says that the remover gets as far as a connection.
  \<open>quiet ts s s'\<close>: from \<open>s\<close> to \<open>s'\<close> the database did not change, none of the four steps was
  sent, and detection was sent only for tables in \<open>ts\<close>.
\<close>

definition removal_stmt :: "event \<Rightarrow> bool" where
  "removal_stmt e =
     (case e of
        Execute (Stage t c) \<Rightarrow> True
      | Execute (Delete t c) \<Rightarrow> True
      | Execute (Reinsert t) \<Rightarrow> True
      | Execute (DropSide t) \<Rightarrow> True
      | _ \<Rightarrow> False)"

definition clean :: "database \<Rightarrow> string \<Rightarrow> bool" where
  "clean d t = (case tables d t of None \<Rightarrow> True | Some rows \<Rightarrow> duplicate_check_query rows = [])"

definition no_null_keys :: "database \<Rightarrow> bool" where
  "no_null_keys d = (\<forall>t rows. tables d t = Some rows \<longrightarrow> None \<notin> row_key ` set rows)"

definition section_table :: "world \<Rightarrow> string \<Rightarrow> string + string \<times> string" where
  "section_table w section =
     (case server_config w ''r_duplicates.ini'' section of
        Inl e \<Rightarrow> Inl e
      | Inr table_config \<Rightarrow>
     (case getitem table_config ''table'' of
        Inl e \<Rightarrow> Inl e
      | Inr table_name \<Rightarrow>
     (case getitem table_config ''unique_key'' of
        Inl e \<Rightarrow> Inl e
      | Inr unique_key \<Rightarrow>
     (case getitem table_config ''database'' of
        Inl e \<Rightarrow> Inl e
      | Inr database \<Rightarrow> Inr (database @ ''.'' @ table_name, unique_key)))))"

fun visited :: "world \<Rightarrow> string list \<Rightarrow> string list" where
  "visited w [] = []"
| "visited w (section # rest) =
     (if prefix ''yoda_hub'' section
      then (case section_table w section of
              Inl e \<Rightarrow> []
            | Inr (t, c) \<Rightarrow> t # visited w rest)
      else visited w rest)"

definition calm_world :: "world \<Rightarrow> bool" where
  "calm_world w = (\<forall>n q. stmt_error w n q = None)"

definition tidy :: "database \<Rightarrow> bool" where
  "tidy d = (sides d = Map.empty \<and> no_null_keys d)"

definition quiet :: "string list \<Rightarrow> session \<Rightarrow> session \<Rightarrow> bool" where
  "quiet ts s s' =
     (db s' = db s \<and>
      (\<exists>new. trace s' = trace s @ new \<and> list_all (\<lambda>e. \<not> removal_stmt e) new \<and>
         (\<forall>t c. Execute (Detect t c) \<in> set new \<longrightarrow> t \<in> set ts)))"

definition connects :: "world \<Rightarrow> bool" where
  "connects w =
     (case server_config w ''r_duplicates.ini'' ''yoda_r_lake'' of
        Inl e \<Rightarrow> False
      | Inr config \<Rightarrow>
          (case getitem config ''host'' of
             Inl e \<Rightarrow> False
           | Inr host \<Rightarrow>
               (case getitem config ''database'' of
                  Inl e \<Rightarrow> False
                | Inr database \<Rightarrow> connect_error w = None)))"

section \<open>Example inputs\<close>

text \<open>
  The scenario of the specification: a table \<open>sales.orders\<close> with key column \<open>order_id\<close>,
  in which the row of 2024-01-01 with \<open>order_id = 5\<close> appears three times; a second
  configured table \<open>sales.items\<close>; and a world in which nothing fails.
\<close>

definition order5 :: row where
  "order5 = \<lparr>dateCreated = Some 20240101, row_key = Some 5, payload = ''widget''\<rparr>"

definition order6 :: row where
  "order6 = \<lparr>dateCreated = Some 20240102, row_key = Some 6, payload = ''gadget''\<rparr>"

definition orders_rows :: "row list" where
  "orders_rows = [order5, order6, order5, order5]"

definition items_rows :: "row list" where
  "items_rows = [\<lparr>dateCreated = Some 20240101, row_key = Some 1, payload = ''bolt''\<rparr>,
                 \<lparr>dateCreated = Some 20240101, row_key = Some 2, payload = ''nut''\<rparr>]"

definition sales_db :: database where
  "sales_db = \<lparr>tables = [''sales.orders'' \<mapsto> orders_rows, ''sales.items'' \<mapsto> items_rows],
               sides = Map.empty\<rparr>"

definition sales_ini :: ini where
  "sales_ini =
     [(''yoda_r_lake'', [(''host'', ''lake.example.org''), (''database'', ''lake'')]),
      (''yoda_hub_orders'',
         [(''database'', ''sales''), (''table'', ''orders''), (''unique_key'', ''order_id''),
          (''host'', ''src-db-1''), (''replication_task'', ''task-7'')]),
      (''yoda_hub_items'',
         [(''database'', ''sales''), (''table'', ''items''), (''unique_key'', ''item_id''),
          (''host'', ''src-db-1''), (''replication_task'', ''task-8'')])]"

definition mail_ini :: ini where
  "mail_ini = [(''email_config'', [(''slack_webhook_url'', ''https://hooks.example.org/T1'')])]"

definition sales_files :: "string \<Rightarrow> ini" where
  "sales_files f =
     (if f = ''r_duplicates.ini'' \<or> f = ''/r_duplicates.ini'' then sales_ini
      else if f = ''r_emailConfig.ini'' \<or> f = ''/r_emailConfig.ini'' then mail_ini
      else [])"

definition calm :: world where
  "calm = \<lparr>files = sales_files, connect_error = None, stmt_error = (\<lambda>n q. None),
           now = (\<lambda>n i. ''2024-01-03 06:00:00'')\<rparr>"

text \<open>
  A world in which the \<open>DELETE\<close> of step 2 on \<open>sales.orders\<close> fails; a world in which
  step 1 on \<open>sales.orders\<close> and every \<open>ROLLBACK;\<close> fail; and a database in which
  \<open>sales.orders\<close> is missing while \<open>sales.items\<close> holds a row twice.
\<close>

definition delete_fails :: world where
  "delete_fails = calm\<lparr>stmt_error := (\<lambda>n q. if q = Delete ''sales.orders'' ''order_id''
                                             then Some ''connection reset'' else None)\<rparr>"

definition connection_lost :: world where
  "connection_lost = calm\<lparr>stmt_error := (\<lambda>n q. if q = Stage ''sales.orders'' ''order_id'' \<or> q = Rollback
                                                then Some ''connection lost'' else None)\<rparr>"

definition items_only :: database where
  "items_only = \<lparr>tables = [''sales.items'' \<mapsto> [order6, order6]], sides = Map.empty\<rparr>"


text \<open>
  A table in which key 5 occurs on two dates (once on the first, twice on the second) and
  key 7 occurs on two dates, once each; and a table that holds one row with key \<open>NULL\<close> twice.
\<close>

definition o1 :: row where
  "o1 = \<lparr>dateCreated = Some 20240101, row_key = Some 5, payload = ''first''\<rparr>"

definition o2 :: row where
  "o2 = \<lparr>dateCreated = Some 20240102, row_key = Some 5, payload = ''second''\<rparr>"

definition p1 :: row where
  "p1 = \<lparr>dateCreated = Some 20240103, row_key = Some 7, payload = ''early''\<rparr>"

definition p2 :: row where
  "p2 = \<lparr>dateCreated = Some 20240104, row_key = Some 7, payload = ''late''\<rparr>"

definition reused_rows :: "row list" where
  "reused_rows = [o1, o2, o2, p1, p2]"

definition reused_db :: database where
  "reused_db = \<lparr>tables = [''sales.orders'' \<mapsto> reused_rows, ''sales.items'' \<mapsto> items_rows],
                sides = Map.empty\<rparr>"

definition n1 :: row where
  "n1 = \<lparr>dateCreated = Some 20240101, row_key = None, payload = ''x''\<rparr>"

definition null_db :: database where
  "null_db = \<lparr>tables = [''sales.orders'' \<mapsto> [n1, n1], ''sales.items'' \<mapsto> items_rows],
              sides = Map.empty\<rparr>"

text \<open>The mail body and the chat message of the checker for the example table.\<close>

definition orders_mail_body :: string where
  "orders_mail_body =
     ''Duplicate(s) found in sales.orders at 2024-01-03 06:00:00.'' @ nl @ nl @
     ''DETAILS:'' @ nl @
     ''Source Host: src-db-1'' @ nl @
     ''Source Replication Task: task-7'' @ nl @
     ''Source Database: sales'' @ nl @
     ''Source Table: orders'' @ nl @
     ''Source Column: order_id'' @ nl @ nl @
     ''Total number of rows = 1'' @ nl @ nl @ nl @
     ''Duplicates found in sales.orders:'' @ nl @
     ''1 row(s) affected: with 3 duplicates per row'' @ nl"

definition orders_chat_message :: string where
  "orders_chat_message =
     ''Alert: Duplicates found in sales.orders:'' @ nl @ nl @
     ''Duplicates found in sales.orders:'' @ nl @
     ''1 row(s) affected: with 3 duplicates per row'' @ nl"

section \<open>Facts about single statements\<close>

lemma execute_Inl:
  "execute w q s = Inl (e, s1) \<Longrightarrow> s1 = s\<lparr>trace := trace s @ [Execute q]\<rparr>"
  by (auto simp: execute_def Let_def split: option.splits sum.splits)

lemma execute_Detect_Inr_iff:
  "execute w (Detect t c) s = Inr s1 \<longleftrightarrow>
     stmt_error w (length (trace s)) (Detect t c) = None \<and>
     (\<exists>rows. tables (db s) t = Some rows \<and>
        s1 = s\<lparr>trace := trace s @ [Execute (Detect t c)], cursor := duplicate_check_query rows\<rparr>)"
  by (auto simp: execute_def Let_def split: option.splits sum.splits)

lemma execute_Detect_Inr:
  assumes "tables (db s) t = Some rows" and "stmt_error w (length (trace s)) (Detect t c) = None"
  shows "execute w (Detect t c) s =
           Inr (s\<lparr>trace := trace s @ [Execute (Detect t c)], cursor := duplicate_check_query rows\<rparr>)"
  using assms by (simp add: execute_def)

subsection \<open>The two orders\<close>

lemma asc_rank_le:
  "asc_rank (Some a) \<le> asc_rank (Some b) \<longleftrightarrow> a \<le> b"
  "asc_rank (Some a) \<le> asc_rank None"
  "asc_rank None \<le> asc_rank v \<longleftrightarrow> v = None"
  by (auto simp: asc_rank_def split: option.splits)

lemma desc_rank_le:
  "desc_rank (Some a) \<le> desc_rank (Some b) \<longleftrightarrow> b \<le> a"
  "desc_rank None \<le> desc_rank v"
  "desc_rank v \<le> desc_rank None \<longleftrightarrow> v = None"
  by (auto simp: desc_rank_def split: option.splits)

subsection \<open>The detection query\<close>

lemma set_duplicate_check_query:
  "set (duplicate_check_query t) = {(d, k, n). n = group_count t d k \<and> 1 < n}"
proof -
  have "(d, k) \<in> (\<lambda>r. (dateCreated r, row_key r)) ` set t" if "1 < group_count t d k" for d k
  proof -
    from that have "filter (\<lambda>r. dateCreated r = d \<and> row_key r = k) t \<noteq> []"
      by (auto simp: group_count_def)
    then obtain r where "r \<in> set t" "dateCreated r = d" "row_key r = k"
      by (auto simp: filter_empty_conv)
    then show ?thesis by force
  qed
  then show ?thesis
    by (auto simp: duplicate_check_query_def)
qed

lemma distinct_duplicate_check_query: "distinct (duplicate_check_query t)"
  by (auto simp: duplicate_check_query_def distinct_map inj_on_def intro!: distinct_filter)

lemma sorted_duplicate_check_query:
  "sorted (map (\<lambda>(d, k, n). desc_rank d) (duplicate_check_query t))"
  unfolding duplicate_check_query_def by (rule sorted_sort_key)

lemma count_le_one_if_distinct:
  "distinct (map f t) \<Longrightarrow> length (filter (\<lambda>r. f r = x) t) \<le> 1"
proof (induction t)
  case Nil
  then show ?case by simp
next
  case (Cons a t)
  then show ?case
    by (auto simp: filter_empty_conv image_iff dest!: arg_cong[where f=set])
qed

lemma group_count_pair:
  "group_count t d k = length (filter (\<lambda>r. (dateCreated r, row_key r) = (d, k)) t)"
  by (simp add: group_count_def)

lemma no_shared_pair_no_result:
  assumes "distinct (map (\<lambda>r. (dateCreated r, row_key r)) t)"
  shows "duplicate_check_query t = []"
proof -
  have "group_count t d k \<le> 1" for d k
    unfolding group_count_pair using assms by (rule count_le_one_if_distinct)
  then have "set (duplicate_check_query t) = {}"
    unfolding set_duplicate_check_query by (auto simp: not_less)
  then show ?thesis by simp
qed

subsection \<open>The checker only reads\<close>

lemma check_table_db:
  "check_table w s ec url c dn tn h rt = Inr s1 \<Longrightarrow> db s1 = db s"
  "check_table w s ec url c dn tn h rt = Inl (e, s2) \<Longrightarrow> db s2 = db s"
  by (auto simp: check_table_def Let_def send_slack_alert_def send_email_checker_def
        execute_Detect_Inr_iff dest!: execute_Inl split: sum.splits if_splits)

lemma check_section_db:
  "check_section w ec url sec s = Inr s1 \<Longrightarrow> db s1 = db s"
  "check_section w ec url sec s = Inl (e, s2) \<Longrightarrow> db s2 = db s"
  by (auto simp: check_section_def dest: check_table_db split: sum.splits)

lemma check_sections_db:
  "check_sections w ec url secs s = Inr s1 \<Longrightarrow> db s1 = db s"
  "check_sections w ec url secs s = Inl (e, s2) \<Longrightarrow> db s2 = db s"
  by (induction secs arbitrary: s) (auto dest: check_section_db split: sum.splits if_splits)

lemma get_duplicates_and_alert_db:
  "get_duplicates_and_alert w d = Inr s \<Longrightarrow> db s = d"
  by (auto simp: get_duplicates_and_alert_def start_def dest!: check_sections_db
        split: sum.splits option.splits)

lemma check_for_duplicates_db:
  "db (snd (check_for_duplicates w s t c)) = db s"
  by (auto simp: check_for_duplicates_def send_email_def execute_Detect_Inr_iff
        dest!: execute_Inl split: sum.splits)

section \<open>The duplicate detector\<close>

text \<open>
  Claim C6. When the table exists and the query is not failed from outside,
  \<open>check_for_duplicates\<close> returns a list without repetitions whose elements are exactly the
  triples \<open>(dateCreated, key, count)\<close> with \<open>count\<close> the number of rows of the table that
  have this date and this key, and \<open>count > 1\<close>; the list is ordered by \<open>dateCreated\<close>
  descending (that is, by \<open>desc_rank\<close> ascending); it is the result set of the query in
  the cursor, which the checker reads in the same way. When the query raises,
  \<open>check_for_duplicates\<close> returns \<open>None\<close> and the checker's inline query raises to its
  caller. The database after \<open>check_for_duplicates\<close> is the database before it, and the
  database after a whole run of the checker is the database it started with.
\<close>

theorem detector_returns_duplicate_groups:
  "(\<forall>rows. tables (db s) db_table = Some rows \<and>
        stmt_error w (length (trace s)) (Detect db_table unique_key) = None \<longrightarrow>
      (\<exists>result s1. check_for_duplicates w s db_table unique_key = (Some result, s1) \<and>
         execute w (Detect db_table unique_key) s = Inr s1 \<and> cursor s1 = result \<and>
         set result = {(d, k, n). n = group_count rows d k \<and> 1 < n} \<and>
         distinct result \<and>
         sorted (map (\<lambda>(d, k, n). desc_rank d) result))) \<and>
   (\<forall>x. execute w (Detect db_table unique_key) s = Inl x \<longrightarrow>
      fst (check_for_duplicates w s db_table unique_key) = None) \<and>
   (\<forall>x. execute w (Detect (database_name @ ''.'' @ table_name) unique_key) s = Inl x \<longrightarrow>
      check_table w s email_config url unique_key database_name table_name host_name task = Inl x) \<and>
   db (snd (check_for_duplicates w s db_table unique_key)) = db s \<and>
   (\<forall>s'. get_duplicates_and_alert w d = Inr s' \<longrightarrow> db s' = d)"
proof (intro conjI allI impI)
  fix rows
  assume "tables (db s) db_table = Some rows \<and>
          stmt_error w (length (trace s)) (Detect db_table unique_key) = None"
  then have e: "execute w (Detect db_table unique_key) s =
      Inr (s\<lparr>trace := trace s @ [Execute (Detect db_table unique_key)],
             cursor := duplicate_check_query rows\<rparr>)"
    by (simp add: execute_Detect_Inr)
  then have c: "check_for_duplicates w s db_table unique_key =
      (Some (duplicate_check_query rows),
       s\<lparr>trace := trace s @ [Execute (Detect db_table unique_key)],
         cursor := duplicate_check_query rows\<rparr>)"
    by (simp add: check_for_duplicates_def)
  have f: "cursor (s\<lparr>trace := trace s @ [Execute (Detect db_table unique_key)],
                     cursor := duplicate_check_query rows\<rparr>) = duplicate_check_query rows"
    by simp
  show "\<exists>result s1. check_for_duplicates w s db_table unique_key = (Some result, s1) \<and>
         execute w (Detect db_table unique_key) s = Inr s1 \<and> cursor s1 = result \<and>
         set result = {(d, k, n). n = group_count rows d k \<and> 1 < n} \<and>
         distinct result \<and> sorted (map (\<lambda>(d, k, n). desc_rank d) result)"
    by (intro exI conjI, rule c, rule e, rule f)
       (rule set_duplicate_check_query distinct_duplicate_check_query
             sorted_duplicate_check_query)+
next
  fix x assume "execute w (Detect db_table unique_key) s = Inl x"
  then show "fst (check_for_duplicates w s db_table unique_key) = None"
    by (cases x) (simp add: check_for_duplicates_def)
next
  fix x assume "execute w (Detect (database_name @ ''.'' @ table_name) unique_key) s = Inl x"
  then show "check_table w s email_config url unique_key database_name table_name host_name task = Inl x"
    by (simp add: check_table_def)
next
  show "db (snd (check_for_duplicates w s db_table unique_key)) = db s"
    by (rule check_for_duplicates_db)
next
  fix s' assume "get_duplicates_and_alert w d = Inr s'"
  then show "db s' = d" by (rule get_duplicates_and_alert_db)
qed

theorem detector_returns_duplicate_groups_witness:
  "tables (db (start sales_db)) ''sales.orders'' = Some orders_rows \<and>
   stmt_error calm (length (trace (start sales_db))) (Detect ''sales.orders'' ''order_id'') = None \<and>
   (\<exists>result s1. check_for_duplicates calm (start sales_db) ''sales.orders'' ''order_id''
                   = (Some result, s1) \<and>
      execute calm (Detect ''sales.orders'' ''order_id'') (start sales_db) = Inr s1 \<and>
      cursor s1 = result \<and>
      set result = {(d, k, n). n = group_count orders_rows d k \<and> 1 < n} \<and>
      distinct result \<and>
      sorted (map (\<lambda>(d, k, n). desc_rank d) result)) \<and>
   duplicate_check_query orders_rows = [(Some 20240101, Some 5, 3)]"
proof -
  have h: "tables (db (start sales_db)) ''sales.orders'' = Some orders_rows \<and>
      stmt_error calm (length (trace (start sales_db))) (Detect ''sales.orders'' ''order_id'') = None"
    by (simp add: start_def sales_db_def calm_def)
  have q: "duplicate_check_query orders_rows = [(Some 20240101, Some 5, 3)]"
    by (simp add: duplicate_check_query_def orders_rows_def order5_def order6_def
          group_count_def desc_rank_def)
  from h q detector_returns_duplicate_groups
         [of "start sales_db" "''sales.orders''" calm "''order_id''"]
  show ?thesis by blast
qed

section \<open>Tables without duplicates\<close>

text \<open>
  Claim C7. Take a table in which no two rows share their \<open>(dateCreated, key)\<close> pair, and
  let the detection query run. Then the detector returns the empty list; the checker's
  processing of the table sends the query and nothing else (no mail, no chat message); the
  remover's processing of the table sends the query and nothing else (none of the four
  steps), and the database, hence the table and its row count, is as before.
\<close>

theorem no_duplicates_nothing_done:
  assumes "tables (db s) (database_name @ ''.'' @ table_name) = Some rows"
    and "distinct (map (\<lambda>r. (dateCreated r, row_key r)) rows)"
    and "stmt_error w (length (trace s))
           (Detect (database_name @ ''.'' @ table_name) unique_key) = None"
  shows "\<exists>s'. check_for_duplicates w s (database_name @ ''.'' @ table_name) unique_key
                 = (Some [], s') \<and>
           check_table w s email_config url unique_key database_name table_name host_name task
                 = Inr s' \<and>
           process_table w s (database_name @ ''.'' @ table_name) unique_key = Inr s' \<and>
           trace s' = trace s @ [Execute (Detect (database_name @ ''.'' @ table_name) unique_key)] \<and>
           db s' = db s \<and>
           tables (db s') (database_name @ ''.'' @ table_name) = Some rows"
proof -
  let ?t = "database_name @ ''.'' @ table_name"
  let ?s' = "s\<lparr>trace := trace s @ [Execute (Detect ?t unique_key)], cursor := []\<rparr>"
  have q: "duplicate_check_query rows = []"
    using assms(2) by (rule no_shared_pair_no_result)
  have e: "execute w (Detect ?t unique_key) s = Inr ?s'"
    using execute_Detect_Inr [OF assms(1) assms(3)] q by simp
  have c: "check_for_duplicates w s ?t unique_key = (Some [], ?s')"
    unfolding check_for_duplicates_def e by simp
  have "check_table w s email_config url unique_key database_name table_name host_name task = Inr ?s'"
    unfolding check_table_def e by simp
  moreover have "process_table w s ?t unique_key = Inr ?s'"
    unfolding process_table_def c by (simp add: truthy_def)
  ultimately show ?thesis
    using c assms(1) by (intro exI [of _ ?s']) simp
qed

theorem no_duplicates_nothing_done_witness:
  "tables (db (start sales_db)) (''sales'' @ ''.'' @ ''items'') = Some items_rows \<and>
   distinct (map (\<lambda>r. (dateCreated r, row_key r)) items_rows) \<and>
   stmt_error calm (length (trace (start sales_db)))
     (Detect (''sales'' @ ''.'' @ ''items'') ''item_id'') = None \<and>
   (\<exists>s'. check_for_duplicates calm (start sales_db) (''sales'' @ ''.'' @ ''items'') ''item_id''
             = (Some [], s') \<and>
      check_table calm (start sales_db) Map.empty ''https://hooks.example.org/T1'' ''item_id''
          ''sales'' ''items'' ''src-db-1'' ''task-8'' = Inr s' \<and>
      process_table calm (start sales_db) (''sales'' @ ''.'' @ ''items'') ''item_id'' = Inr s' \<and>
      trace s' = trace (start sales_db) @ [Execute (Detect (''sales'' @ ''.'' @ ''items'') ''item_id'')] \<and>
      db s' = db (start sales_db) \<and>
      tables (db s') (''sales'' @ ''.'' @ ''items'') = Some items_rows)"
proof -
  have h1: "tables (db (start sales_db)) (''sales'' @ ''.'' @ ''items'') = Some items_rows"
    by (simp add: start_def sales_db_def)
  have h2: "distinct (map (\<lambda>r. (dateCreated r, row_key r)) items_rows)"
    by (simp add: items_rows_def)
  have h3: "stmt_error calm (length (trace (start sales_db)))
              (Detect (''sales'' @ ''.'' @ ''items'') ''item_id'') = None"
    by (simp add: calm_def)
  from no_duplicates_nothing_done [OF h1 h2 h3] h1 h2 h3 show ?thesis
    by blast
qed

section \<open>A failing detection\<close>



section \<open>How the trace grows\<close>

lemma extends_refl [simp]: "extends s s"
  by (simp add: extends_def)

lemma extends_trans: "extends s s1 \<Longrightarrow> extends s1 s2 \<Longrightarrow> extends s s2"
  by (auto simp: extends_def)

lemma state_of_simps [simp]: "state_of (Inr s) = s" "state_of (Inl (e, s)) = s"
  by (simp_all add: state_of_def)

lemma extends_bind:
  assumes "extends s (state_of r)" and "\<And>s1. r = Inr s1 \<Longrightarrow> extends s1 (state_of (f s1))"
  shows "extends s (state_of (case r of Inl x \<Rightarrow> Inl x | Inr s1 \<Rightarrow> f s1))"
  using assms by (cases r) (auto intro: extends_trans)

lemma extends_execute: "extends s (state_of (execute w q s))"
  by (auto simp: execute_def Let_def extends_def conn_event_def split: option.splits sum.splits)

lemma extends_send_email: "extends s (send_email a b s)"
  by (simp add: send_email_def extends_def conn_event_def)

lemma extends_check_for_duplicates: "extends s (snd (check_for_duplicates w s t c))"
  using extends_execute [of s w "Detect t c"]
  by (auto simp: check_for_duplicates_def split: sum.splits
        intro: extends_trans [OF _ extends_send_email])

lemma extends_removal_steps: "extends s (state_of (removal_steps w s t c))"
  unfolding removal_steps_def
  by (intro extends_bind extends_execute) (simp add: extends_send_email)

lemma extends_remove_duplicates_from_table:
  "extends s (state_of (remove_duplicates_from_table w s t c))"
proof (cases "removal_steps w s t c")
  case (Inl x)
  obtain e s1 where x: "x = (e, s1)" by (cases x)
  let ?s2 = "send_email ''Error Removing Duplicates''
               (''Error processing steps for '' @ t @ '': '' @ e) s1"
  have "extends s s1"
    using extends_removal_steps [of s w t c] Inl x by simp
  moreover have "extends s1 ?s2" by (rule extends_send_email)
  moreover have "extends ?s2 (state_of (execute w Rollback ?s2))" by (rule extends_execute)
  ultimately have "extends s (state_of (execute w Rollback ?s2))"
    by (blast intro: extends_trans)
  then show ?thesis
    unfolding remove_duplicates_from_table_def Inl x by simp
next
  case (Inr s')
  then show ?thesis
    using extends_removal_steps [of s w t c]
    by (simp add: remove_duplicates_from_table_def)
qed

lemma extends_process_table: "extends s (state_of (process_table w s t c))"
  using extends_check_for_duplicates [of s w t c]
  by (auto simp: process_table_def split: prod.splits
        intro: extends_trans extends_remove_duplicates_from_table)

lemma extends_process_section: "extends s (state_of (process_section w sec s))"
  by (auto simp: process_section_def extends_process_table split: sum.splits)

lemma extends_process_sections: "extends s (state_of (process_sections w secs s))"
proof (induction secs arbitrary: s)
  case Nil
  then show ?case by simp
next
  case (Cons sec secs)
  show ?case
  proof (cases "prefix ''yoda_hub'' sec")
    case True
    then show ?thesis
      using extends_bind [OF extends_process_section [of s w sec], of "process_sections w secs"]
        Cons.IH by simp
  next
    case False
    then show ?thesis using Cons.IH by simp
  qed
qed

lemma extends_check_table: "extends s (state_of (check_table w s ec url c dn tn h rt))"
  using extends_execute [of s w "Detect (dn @ ''.'' @ tn) c"]
  by (auto simp: check_table_def Let_def send_slack_alert_def send_email_checker_def
        extends_def conn_event_def split: sum.splits)

lemma extends_check_section: "extends s (state_of (check_section w ec url sec s))"
  by (auto simp: check_section_def extends_check_table split: sum.splits)

lemma extends_check_sections: "extends s (state_of (check_sections w ec url secs s))"
proof (induction secs arbitrary: s)
  case Nil
  then show ?case by simp
next
  case (Cons sec secs)
  show ?case
  proof (cases "prefix ''yoda_hub'' sec")
    case True
    then show ?thesis
      using extends_bind [OF extends_check_section [of s w ec url sec],
                          of "check_sections w ec url secs"]
        Cons.IH by simp
  next
    case False
    then show ?thesis using Cons.IH by simp
  qed
qed

lemma checker_trace:
  assumes "get_duplicates_and_alert w d = Inr s"
  shows "trace s = [] \<or>
         (\<exists>mid fin. trace s = Connect # mid @ [fin] \<and> list_all (\<lambda>e. \<not> conn_event e) mid \<and>
            (fin = ConnCommit \<or> fin = ConnRollback))"
proof -
  let ?s0 = "(start d)\<lparr>trace := [Connect]\<rparr>"
  from assms obtain ec url
    where ec: "server_config w ''/r_emailConfig.ini'' ''email_config'' = Inr ec"
      "getitem ec ''slack_webhook_url'' = Inr url"
    by (auto simp: get_duplicates_and_alert_def split: sum.splits)
  let ?r = "check_sections w ec url (map fst (files w ''/r_duplicates.ini'')) ?s0"
  show ?thesis
  proof (cases "\<exists>cfg. server_config w ''/r_duplicates.ini'' ''yoda_r_lake'' = Inr cfg \<and>
                      connect_error w = None")
    case False
    then have "s = start d"
      using assms ec
      by (auto simp: get_duplicates_and_alert_def split: sum.splits option.splits)
    then show ?thesis by (simp add: start_def)
  next
    case True
    then have s: "s = (state_of ?r)\<lparr>trace := trace (state_of ?r) @
                        [if isl ?r then ConnRollback else ConnCommit]\<rparr>"
      using assms ec
      by (auto simp: get_duplicates_and_alert_def split: sum.splits option.splits)
    have "extends ?s0 (state_of ?r)"
      by (rule extends_check_sections)
    then obtain mid where "trace (state_of ?r) = Connect # mid"
        "list_all (\<lambda>e. \<not> conn_event e) mid"
      by (auto simp: extends_def)
    then show ?thesis
      by (subst s, subst s) auto
  qed
qed

lemma checker_never_closes:
  assumes "get_duplicates_and_alert w d = Inr s"
  shows "Close \<notin> set (trace s)"
proof -
  from checker_trace [OF assms] consider "trace s = []"
    | mid fin where "trace s = Connect # mid @ [fin]" "list_all (\<lambda>e. \<not> conn_event e) mid"
        "fin = ConnCommit \<or> fin = ConnRollback"
    by blast
  then show ?thesis
  proof cases
    case 1
    then show ?thesis by simp
  next
    case 2
    from 2(2) have "Close \<notin> set mid"
      by (auto simp: list_all_iff conn_event_def)
    with 2(1,3) show ?thesis by auto
  qed
qed

lemma remover_closes_what_it_opened:
  assumes "remove_duplicates w d = Inr s"
  shows "(Connect \<notin> set (trace s) \<and> Close \<notin> set (trace s)) \<or>
         (\<exists>mid. trace s = Connect # mid @ [Close] \<and> Connect \<notin> set mid \<and> Close \<notin> set mid)"
proof -
  obtain config where cfg: "server_config w ''r_duplicates.ini'' ''yoda_r_lake'' = Inr config"
    using assms by (auto simp: remove_duplicates_def split: sum.splits)
  obtain outcome conn where t: "remove_duplicates_try w config (start d) = (outcome, conn)"
    by (cases "remove_duplicates_try w config (start d)")
  let ?s1 = "case outcome of Inr s \<Rightarrow> s
             | Inl (e, s) \<Rightarrow> send_email ''Error in Duplicate Removal Process''
                               (''Failed to process: '' @ e) s"
  have s: "s = (if conn then ?s1\<lparr>trace := trace ?s1 @ [Close]\<rparr> else ?s1)"
    using assms by (auto simp: remove_duplicates_def cfg t Let_def)
  show ?thesis
  proof (cases conn)
    case False
    then have "\<exists>e. outcome = Inl (e, start d)"
      using t by (auto simp: remove_duplicates_try_def split: sum.splits option.splits)
    then show ?thesis
      using s False by (auto simp: start_def send_email_def)
  next
    case True
    let ?s0 = "(start d)\<lparr>trace := trace (start d) @ [Connect]\<rparr>"
    have o: "outcome = process_sections w (map fst (files w ''r_duplicates.ini'')) ?s0"
      using t True by (auto simp: remove_duplicates_try_def split: sum.splits option.splits)
    have "extends ?s0 (state_of outcome)"
      unfolding o by (rule extends_process_sections)
    then obtain mid where m: "trace (state_of outcome) = Connect # mid"
        "list_all (\<lambda>e. \<not> conn_event e) mid"
      by (auto simp: extends_def start_def)
    have "\<exists>mid'. trace ?s1 = Connect # mid' \<and> list_all (\<lambda>e. \<not> conn_event e) mid'"
      using m by (cases outcome) (auto simp: send_email_def conn_event_def)
    then show ?thesis
      using s True by (auto simp: list_all_iff conn_event_def)
  qed
qed

section \<open>A failure in the middle of the removal\<close>

lemma execute_Rollback:
  "stmt_error w (length (trace s)) Rollback = None \<Longrightarrow>
     execute w Rollback s = Inr (s\<lparr>trace := trace s @ [Execute Rollback], cursor := []\<rparr>)"
  by (simp add: execute_def)

lemma execute_Rollback_db: "db (state_of (execute w Rollback s)) = db s"
  by (auto simp: execute_def Let_def split: option.splits)

lemma execute_Stage_Inr:
  assumes "execute w (Stage t c) s = Inr s1"
  shows "\<exists>rows. tables (db s) t = Some rows \<and> sides (db s) t = None \<and>
           s1 = s\<lparr>trace := trace s @ [Execute (Stage t c)],
                  db := (db s)\<lparr>sides := (sides (db s))(t \<mapsto> Staged (step1_select rows))\<rparr>,
                  cursor := []\<rparr>"
  using assms by (auto simp: execute_def Let_def split: option.splits sum.splits)

text \<open>
  Whenever step 1 succeeded and step 2 raises, \<open>ROLLBACK;\<close> is the last statement sent,
  the tables are what they were before step 1, and the side table of step 1 is still there:
  step 1 ended with its own \<open>COMMIT\<close>, and nothing on this path drops what it created.
\<close>

lemma failed_delete_in_general:
  assumes "execute w (Stage t c) s = Inr s1" and "execute w (Delete t c) s1 = Inl (e, s2)"
  shows "last (trace (state_of (remove_duplicates_from_table w s t c))) = Execute Rollback \<and>
         tables (db (state_of (remove_duplicates_from_table w s t c))) = tables (db s) \<and>
         (\<exists>rows. tables (db s) t = Some rows \<and>
            sides (db (state_of (remove_duplicates_from_table w s t c))) t
              = Some (Staged (step1_select rows)))"
proof -
  let ?s3 = "send_email ''Error Removing Duplicates''
               (''Error processing steps for '' @ t @ '': '' @ e) s2"
  have r: "remove_duplicates_from_table w s t c = execute w Rollback ?s3"
    using assms by (simp add: remove_duplicates_from_table_def removal_steps_def)
  obtain rows where rows: "tables (db s) t = Some rows" "sides (db s) t = None"
    and s1: "s1 = s\<lparr>trace := trace s @ [Execute (Stage t c)],
                    db := (db s)\<lparr>sides := (sides (db s))(t \<mapsto> Staged (step1_select rows))\<rparr>,
                    cursor := []\<rparr>"
    using execute_Stage_Inr [OF assms(1)] by blast
  have s2: "s2 = s1\<lparr>trace := trace s1 @ [Execute (Delete t c)]\<rparr>"
    using assms(2) by (rule execute_Inl)
  have d3: "db ?s3 = (db s)\<lparr>sides := (sides (db s))(t \<mapsto> Staged (step1_select rows))\<rparr>"
    by (simp add: send_email_def s2 s1)
  have "last (trace (state_of (execute w Rollback ?s3))) = Execute Rollback"
    by (auto simp: execute_def Let_def split: option.splits)
  moreover have "db (state_of (execute w Rollback ?s3)) = db ?s3"
    by (rule execute_Rollback_db)
  ultimately show ?thesis
    unfolding r using d3 rows by simp
qed

text \<open>
  While a side table of that name exists, step 1 raises and leaves the database as it is: the
  removal cannot complete for this table again.
\<close>

lemma leftover_side_table_blocks_removal:
  assumes "sides (db s) t = Some side"
  shows "\<exists>e s1. removal_steps w s t c = Inl (e, s1) \<and> db s1 = db s"
  using assms
  by (auto simp: removal_steps_def execute_def Let_def split: option.splits sum.splits)

text \<open>
  Claim C2 (the code departs from it). In the example world the \<open>DELETE\<close> of step 2 on
  \<open>sales.orders\<close> raises after step 1 succeeded. The run sends \<open>ROLLBACK;\<close> and
  \<open>sales.orders\<close> has its rows of before the run, as the claim says; but the side table
  \<open>sales.orders_duplicates\<close> with its staged row is in the database when the run has
  ended and the connection is closed.
\<close>

theorem failed_delete_leaves_side_table:
  "map_option trace (returned (remove_duplicates delete_fails sales_db)) =
     Some [Connect,
           Execute (Detect ''sales.orders'' ''order_id''),
           Execute (Stage ''sales.orders'' ''order_id''),
           Execute (Delete ''sales.orders'' ''order_id''),
           Email ''Error Removing Duplicates''
             ''Error processing steps for sales.orders: connection reset'',
           Execute Rollback,
           Execute (Detect ''sales.items'' ''item_id''),
           Close] \<and>
   map_option (\<lambda>s. tables (db s) ''sales.orders'') (returned (remove_duplicates delete_fails sales_db)) =
     Some (Some orders_rows) \<and>
   map_option (\<lambda>s. sides (db s) ''sales.orders'') (returned (remove_duplicates delete_fails sales_db)) =
     Some (Some (Staged [(3, 1, order5)]))"
  by code_simp

section \<open>One failing table and the tables after it\<close>

text \<open>
  In the remover every exception of the detection and of the four steps is caught inside the
  loop body: unless the handler's own \<open>ROLLBACK;\<close> fails, processing a table returns
  normally, and the loop is left early only by an incomplete section.
\<close>

lemma remover_catches_per_table:
  assumes "\<And>n. stmt_error w n Rollback = None"
  shows "\<exists>s'. process_table w s t c = Inr s'"
proof -
  have "\<exists>s'. remove_duplicates_from_table w s1 t c = Inr s'" for s1
    by (auto simp: remove_duplicates_from_table_def execute_Rollback assms split: sum.splits)
  then show ?thesis
    by (auto simp: process_table_def split: prod.splits)
qed

text \<open>
  When the \<open>ROLLBACK;\<close> of the handler fails as well, the exception reaches the handler
  of \<open>remove_duplicates\<close>, which is outside the loop: the run mails the failure and closes,
  and \<open>sales.items\<close> is not looked at.
\<close>

lemma failing_rollback_ends_the_run:
  "map_option trace (returned (remove_duplicates connection_lost sales_db)) =
     Some [Connect,
           Execute (Detect ''sales.orders'' ''order_id''),
           Execute (Stage ''sales.orders'' ''order_id''),
           Email ''Error Removing Duplicates''
             ''Error processing steps for sales.orders: connection lost'',
           Execute Rollback,
           Email ''Error in Duplicate Removal Process'' ''Failed to process: connection lost'',
           Close]"
  by code_simp

text \<open>
  Claim C3 (the code departs from it in the checker). \<open>sales.orders\<close> is missing and
  \<open>sales.items\<close>, configured after it, holds a row twice. The checker's query on
  \<open>sales.orders\<close> raises; the only handler is the one around the whole loop, so the run
  ends there: \<open>sales.items\<close> is never queried and its duplicate is not reported. The
  remover, on the same input, mails the detection error and goes on to \<open>sales.items\<close>.
\<close>

theorem checker_stops_at_failing_table:
  "map_option trace (returned (get_duplicates_and_alert calm items_only)) =
     Some [Connect, Execute (Detect ''sales.orders'' ''order_id''), ConnRollback] \<and>
   map_option trace (returned (remove_duplicates calm items_only)) =
     Some [Connect,
           Execute (Detect ''sales.orders'' ''order_id''),
           Email ''Error Checking Duplicates''
             ''Error checking duplicates in sales.orders: relation sales.orders does not exist'',
           Execute (Detect ''sales.items'' ''item_id''),
           Execute (Stage ''sales.items'' ''item_id''),
           Execute (Delete ''sales.items'' ''item_id''),
           Execute (Reinsert ''sales.items''),
           Execute (DropSide ''sales.items''),
           Email ''Duplicate Removal Notification for sales.items''
             ''Duplicates have been successfully removed from sales.items.'',
           Close]"
  by code_simp

section \<open>Opening and closing the connection\<close>


section \<open>What the four steps compute\<close>

lemma filter_enumerate_from_one:
  "0 < m \<Longrightarrow>
   filter (\<lambda>(total_duplicates, duplicate_rn, r). 1 < total_duplicates \<and> duplicate_rn = 1)
     (map (\<lambda>(i, r). (n, Suc i, r)) (enumerate m p)) = []"
  by (induction p arbitrary: m) auto

lemma filter_number_partition:
  "filter (\<lambda>(total_duplicates, duplicate_rn, r). 1 < total_duplicates \<and> duplicate_rn = 1)
     (number_partition p) = (if 1 < length p then [(length p, 1, hd p)] else [])"
proof (cases p)
  case Nil
  then show ?thesis by (simp add: number_partition_def)
next
  case (Cons x xs)
  then show ?thesis
    using filter_enumerate_from_one [of "Suc 0" "Suc (length xs)" xs]
    by (simp add: number_partition_def)
qed

lemma length_partition_rows: "length (partition_rows t k) = key_count t k"
  by (simp add: partition_rows_def key_count_def)

lemma concat_map_if:
  "concat (map (\<lambda>k. if Q k then [g k] else []) ks) = map g (filter Q ks)"
  by (induction ks) auto

lemma step1_select_eq:
  "step1_select t = map (\<lambda>k. (key_count t k, 1, hd (partition_rows t k))) (dup_keys t)"
proof -
  let ?P = "\<lambda>(total_duplicates, duplicate_rn, r). 1 < total_duplicates \<and> duplicate_rn = (1::nat)"
  have "step1_select t =
          concat (map (\<lambda>k. filter ?P (number_partition (partition_rows t k)))
                    (remdups (map row_key t)))"
    by (simp only: step1_select_def duplicates_cte_def filter_concat map_map comp_def)
  also have "\<dots> = concat (map (\<lambda>k. if 1 < key_count t k
                                     then [(key_count t k, 1, hd (partition_rows t k))] else [])
                         (remdups (map row_key t)))"
    by (simp only: filter_number_partition length_partition_rows)
  also have "\<dots> = map (\<lambda>k. (key_count t k, 1, hd (partition_rows t k)))
                      (filter (\<lambda>k. 1 < key_count t k) (remdups (map row_key t)))"
    by (rule concat_map_if)
  finally show ?thesis by (simp only: dup_keys_def)
qed

lemma set_partition_rows: "set (partition_rows t k) = {r \<in> set t. row_key r = k}"
  by (auto simp: partition_rows_def)

lemma hd_partition_rows:
  assumes "0 < key_count t k"
  shows "hd (partition_rows t k) \<in> set t" "row_key (hd (partition_rows t k)) = k"
    "\<And>r. r \<in> set t \<Longrightarrow> row_key r = k \<Longrightarrow>
        asc_rank (dateCreated (hd (partition_rows t k))) \<le> asc_rank (dateCreated r)"
proof -
  let ?p = "partition_rows t k"
  have ne: "?p \<noteq> []"
    using assms by (simp flip: length_partition_rows)
  then have "hd ?p \<in> set ?p" by simp
  then show "hd ?p \<in> set t" "row_key (hd ?p) = k"
    by (auto simp: set_partition_rows)
  fix r assume "r \<in> set t" "row_key r = k"
  then have r: "r \<in> set ?p" by (simp add: set_partition_rows)
  have "sorted (map (\<lambda>r. asc_rank (dateCreated r)) ?p)"
    unfolding partition_rows_def by (rule sorted_sort_key)
  with ne r show "asc_rank (dateCreated (hd ?p)) \<le> asc_rank (dateCreated r)"
    by (cases ?p) auto
qed

lemma dup_keys_distinct: "distinct (dup_keys t)"
  by (simp add: dup_keys_def)

lemma set_dup_keys: "set (dup_keys t) = {k. 1 < key_count t k}"
proof -
  have "k \<in> row_key ` set t" if "1 < key_count t k" for k
  proof -
    from that have "filter (\<lambda>r. row_key r = k) t \<noteq> []"
      by (auto simp: key_count_def)
    then show ?thesis by (auto simp: filter_empty_conv)
  qed
  then show ?thesis by (auto simp: dup_keys_def)
qed

lemma side_keys_step1: "side_keys (Staged (step1_select t)) = dup_keys t"
proof -
  have "row_key (hd (partition_rows t k)) = k" if "k \<in> set (dup_keys t)" for k
    using that hd_partition_rows(2) [of t k] by (simp add: set_dup_keys)
  then show ?thesis
    by (simp add: step1_select_eq comp_def map_idI)
qed

lemma sql_eq_iff: "sql_eq a b \<longleftrightarrow> a = b \<and> a \<noteq> None"
  by (auto simp: sql_eq_def split: option.splits)

lemma step2_delete_dup_keys:
  "step2_delete t (dup_keys t) = filter (\<lambda>r. row_key r = None \<or> key_count t (row_key r) \<le> 1) t"
  by (auto simp: step2_delete_def list_ex_iff sql_eq_iff set_dup_keys intro!: filter_cong)

lemma after_removal_eq:
  "after_removal t =
     filter (\<lambda>r. row_key r = None \<or> key_count t (row_key r) \<le> 1) t @
     map (\<lambda>k. hd (partition_rows t k)) (dup_keys t)"
  unfolding after_removal_def side_keys_step1 step2_delete_dup_keys
  by (simp add: step3_insert_def drop_columns_def step1_select_eq comp_def)

lemma key_count_append: "key_count (xs @ ys) k = key_count xs k + key_count ys k"
  by (simp add: key_count_def)

lemma key_count_kept:
  "key_count (filter (\<lambda>r. row_key r = None \<or> key_count t (row_key r) \<le> 1) t) k =
     (if k = None \<or> key_count t k \<le> 1 then key_count t k else 0)"
proof -
  have "filter (\<lambda>r. row_key r = k)
          (filter (\<lambda>r. row_key r = None \<or> key_count t (row_key r) \<le> 1) t) =
        filter (\<lambda>r. (k = None \<or> key_count t k \<le> 1) \<and> row_key r = k) t"
    by (auto intro!: filter_cong)
  then show ?thesis
    by (simp add: key_count_def)
qed

lemma length_filter_eq_distinct:
  "distinct xs \<Longrightarrow> length (filter (\<lambda>x. x = k) xs) = (if k \<in> set xs then 1 else 0)"
  by (induction xs) auto

lemma key_count_survivors:
  "key_count (map (\<lambda>k. hd (partition_rows t k)) (dup_keys t)) k =
     (if 1 < key_count t k then 1 else 0)"
proof -
  have "filter ((\<lambda>r. row_key r = k) \<circ> (\<lambda>k. hd (partition_rows t k))) (dup_keys t) =
        filter (\<lambda>k'. k' = k) (dup_keys t)"
    using hd_partition_rows(2) [of t] by (auto simp: set_dup_keys intro!: filter_cong)
  then show ?thesis
    using length_filter_eq_distinct [OF dup_keys_distinct, of k t]
    by (simp add: key_count_def filter_map set_dup_keys)
qed

lemma key_count_after_removal:
  "key_count (after_removal t) k =
     (if 1 < key_count t k then (if k = None then key_count t k + 1 else 1)
      else key_count t k)"
  unfolding after_removal_eq key_count_append key_count_kept key_count_survivors
  by auto

lemma unrepeated_rows_after_removal:
  "filter (\<lambda>r. key_count t (row_key r) \<le> 1) (after_removal t) =
   filter (\<lambda>r. key_count t (row_key r) \<le> 1) t"
proof -
  have "filter (\<lambda>r. key_count t (row_key r) \<le> 1)
          (map (\<lambda>k. hd (partition_rows t k)) (dup_keys t)) = []"
    using hd_partition_rows(2) [of t] by (auto simp: filter_empty_conv set_dup_keys)
  moreover have "filter (\<lambda>r. key_count t (row_key r) \<le> 1)
          (filter (\<lambda>r. row_key r = None \<or> key_count t (row_key r) \<le> 1) t) =
        filter (\<lambda>r. key_count t (row_key r) \<le> 1) t"
    by (auto intro!: filter_cong)
  ultimately show ?thesis
    by (simp add: after_removal_eq)
qed

lemma survivor_in_after_removal:
  "1 < key_count t k \<Longrightarrow> hd (partition_rows t k) \<in> set (after_removal t)"
  by (simp add: after_removal_eq set_dup_keys)

lemma removal_steps_Inr:
  assumes "removal_steps w s t c = Inr s'"
  shows "\<exists>rows. tables (db s) t = Some rows \<and> sides (db s) t = None \<and>
           db s' = (db s)\<lparr>tables := (tables (db s))(t \<mapsto> after_removal rows)\<rparr> \<and>
           trace s' = trace s @
             [Execute (Stage t c), Execute (Delete t c), Execute (Reinsert t),
              Execute (DropSide t),
              Email (''Duplicate Removal Notification for '' @ t)
                (''Duplicates have been successfully removed from '' @ t @ ''.'')]"
  using assms
  by (auto simp: removal_steps_def execute_def Let_def send_email_def after_removal_def
        fun_upd_idem split: option.splits sum.splits side_table.splits)

lemma removal_steps_succeeds:
  assumes "tables (db s) t = Some rows" and "sides (db s) t = None"
    and "stmt_error w (length (trace s)) (Stage t c) = None"
    and "stmt_error w (Suc (length (trace s))) (Delete t c) = None"
    and "stmt_error w (Suc (Suc (length (trace s)))) (Reinsert t) = None"
    and "stmt_error w (Suc (Suc (Suc (length (trace s))))) (DropSide t) = None"
  shows "\<exists>s'. removal_steps w s t c = Inr s'"
  using assms by (simp add: removal_steps_def execute_def)

section \<open>The result of a completed removal\<close>

text \<open>
  Claim C1, amended. When the four steps complete on a table, then for every key value
  other than \<open>NULL\<close> that more than one row of the table had, the table afterwards has
  exactly one row with that key; it is a row of the table before, and no row that had the key
  has an earlier \<open>dateCreated\<close> (in the order of \<open>ORDER BY dateCreated\<close>, \<open>NULL\<close> last). The
  rows whose key value occurred once are the same rows, in the same order, as before.
  The grouping is by key alone: \<open>dateCreated\<close> only selects the survivor.
\<close>

theorem removal_keeps_one_row_per_key:
  assumes "removal_steps w s db_table unique_key = Inr s'"
  shows "\<exists>rows rows'.
           tables (db s) db_table = Some rows \<and> tables (db s') db_table = Some rows' \<and>
           (\<forall>k. k \<noteq> None \<and> 1 < key_count rows k \<longrightarrow>
              key_count rows' k = 1 \<and>
              (\<exists>r. r \<in> set rows \<and> r \<in> set rows' \<and> row_key r = k \<and>
                 (\<forall>r'. r' \<in> set rows \<and> row_key r' = k \<longrightarrow>
                    asc_rank (dateCreated r) \<le> asc_rank (dateCreated r')))) \<and>
           filter (\<lambda>r. key_count rows (row_key r) \<le> 1) rows' =
             filter (\<lambda>r. key_count rows (row_key r) \<le> 1) rows"
proof -
  from removal_steps_Inr [OF assms] obtain rows
    where rows: "tables (db s) db_table = Some rows"
      and after: "tables (db s') db_table = Some (after_removal rows)"
    by auto
  have "key_count (after_removal rows) k = 1 \<and>
        (\<exists>r. r \<in> set rows \<and> r \<in> set (after_removal rows) \<and> row_key r = k \<and>
           (\<forall>r'. r' \<in> set rows \<and> row_key r' = k \<longrightarrow>
              asc_rank (dateCreated r) \<le> asc_rank (dateCreated r')))"
    if k: "k \<noteq> None \<and> 1 < key_count rows k" for k
  proof
    show "key_count (after_removal rows) k = 1"
      using k by (auto simp: key_count_after_removal)
    have pos: "0 < key_count rows k" using k by simp
    show "\<exists>r. r \<in> set rows \<and> r \<in> set (after_removal rows) \<and> row_key r = k \<and>
           (\<forall>r'. r' \<in> set rows \<and> row_key r' = k \<longrightarrow>
              asc_rank (dateCreated r) \<le> asc_rank (dateCreated r'))"
      using hd_partition_rows [OF pos] survivor_in_after_removal [of rows k] k
      by (intro exI [of _ "hd (partition_rows rows k)"]) simp
  qed
  with rows after unrepeated_rows_after_removal [of rows] show ?thesis
    by blast
qed

theorem removal_keeps_one_row_per_key_witness:
  "\<exists>s'. removal_steps calm (start sales_db) ''sales.orders'' ''order_id'' = Inr s' \<and>
      tables (db s') ''sales.orders'' = Some [order6, order5] \<and>
      (\<exists>rows rows'.
         tables (db (start sales_db)) ''sales.orders'' = Some rows \<and>
         tables (db s') ''sales.orders'' = Some rows' \<and>
         (\<forall>k. k \<noteq> None \<and> 1 < key_count rows k \<longrightarrow>
            key_count rows' k = 1 \<and>
            (\<exists>r. r \<in> set rows \<and> r \<in> set rows' \<and> row_key r = k \<and>
               (\<forall>r'. r' \<in> set rows \<and> row_key r' = k \<longrightarrow>
                  asc_rank (dateCreated r) \<le> asc_rank (dateCreated r')))) \<and>
         filter (\<lambda>r. key_count rows (row_key r) \<le> 1) rows' =
           filter (\<lambda>r. key_count rows (row_key r) \<le> 1) rows)"
proof -
  have "\<not> isl (removal_steps calm (start sales_db) ''sales.orders'' ''order_id'')"
    by code_simp
  then obtain s' where s': "removal_steps calm (start sales_db) ''sales.orders'' ''order_id'' = Inr s'"
    by (cases "removal_steps calm (start sales_db) ''sales.orders'' ''order_id''") auto
  have "map_option (\<lambda>s. tables (db s) ''sales.orders'')
          (returned (removal_steps calm (start sales_db) ''sales.orders'' ''order_id'')) =
        Some (Some [order6, order5])"
    by code_simp
  then have "tables (db s') ''sales.orders'' = Some [order6, order5]"
    by (simp add: s' returned_def)
  with s' removal_keeps_one_row_per_key [OF s'] show ?thesis
    by blast
qed

text \<open>
  Claim C1 as it is written, by \<open>(dateCreated, key)\<close> pairs, fails on the table with
  reused keys. The run completes the four steps on \<open>sales.orders\<close>. The pair (2024-01-02,
  5) had two rows and has none afterwards: the survivor for key 5 is the row of 2024-01-01.
  The pair (2024-01-04, 7) had one row, so it was no duplicate, and that row is gone: key 7
  also occurred on 2024-01-03.
\<close>

theorem removal_by_pairs_counterexample:
  "map_option trace (returned (remove_duplicates calm reused_db)) =
     Some [Connect,
           Execute (Detect ''sales.orders'' ''order_id''),
           Execute (Stage ''sales.orders'' ''order_id''),
           Execute (Delete ''sales.orders'' ''order_id''),
           Execute (Reinsert ''sales.orders''),
           Execute (DropSide ''sales.orders''),
           Email ''Duplicate Removal Notification for sales.orders''
             ''Duplicates have been successfully removed from sales.orders.'',
           Execute (Detect ''sales.items'' ''item_id''),
           Close] \<and>
   map_option (\<lambda>s. tables (db s) ''sales.orders'') (returned (remove_duplicates calm reused_db)) =
     Some (Some [o1, p1]) \<and>
   group_count reused_rows (Some 20240102) (Some 5) = 2 \<and>
   group_count [o1, p1] (Some 20240102) (Some 5) = 0 \<and>
   group_count reused_rows (Some 20240104) (Some 7) = 1 \<and>
   p2 \<in> set reused_rows \<and>
   p2 \<notin> set [o1, p1]"
  by code_simp

section \<open>One key repeated \<open>K\<close> times\<close>

text \<open>
  For a key value other than \<open>NULL\<close> the property holds: when one key value occurs \<open>K > 1\<close>
  times and every other key value at most once, a completed removal leaves exactly one row
  with that key, a row of the table before with the earliest \<open>dateCreated\<close> among them, and
  the table has \<open>K - 1\<close> rows fewer.
\<close>

lemma single_repeated_key:
  assumes steps: "removal_steps w s db_table unique_key = Inr s'"
    and rows: "tables (db s) db_table = Some rows"
    and K: "key_count rows (Some v) = K" "1 < K"
    and others: "\<And>k. k \<noteq> Some v \<Longrightarrow> key_count rows k \<le> 1"
  shows "\<exists>rows' r. tables (db s') db_table = Some rows' \<and>
           filter (\<lambda>r. row_key r = Some v) rows' = [r] \<and> r \<in> set rows \<and>
           (\<forall>r'. r' \<in> set rows \<and> row_key r' = Some v \<longrightarrow>
              asc_rank (dateCreated r) \<le> asc_rank (dateCreated r')) \<and>
           length rows' + (K - 1) = length rows"
proof -
  let ?r = "hd (partition_rows rows (Some v))"
  from removal_steps_Inr [OF steps] rows
  have after: "tables (db s') db_table = Some (after_removal rows)"
    by auto
  have set_dk: "set (dup_keys rows) = {Some v}"
    using K others by (auto simp: set_dup_keys) (metis not_less)
  then have dk: "dup_keys rows = [Some v]"
    using dup_keys_distinct [of rows]
    by (cases "dup_keys rows") (auto simp: distinct_length_2_or_more dest!: subset_singletonD)
  have kept: "filter (\<lambda>r. row_key r = None \<or> key_count rows (row_key r) \<le> 1) rows =
        filter (\<lambda>r. row_key r \<noteq> Some v) rows"
    using K others by (auto intro!: filter_cong)
  have eq: "after_removal rows = filter (\<lambda>r. row_key r \<noteq> Some v) rows @ [?r]"
    unfolding after_removal_eq dk kept by simp
  have pos: "0 < key_count rows (Some v)" using K by simp
  note hd = hd_partition_rows [OF pos]
  have one: "filter (\<lambda>r. row_key r = Some v) (after_removal rows) = [?r]"
    using hd(2) by (simp add: eq)
  have "length (filter (\<lambda>r. row_key r \<noteq> Some v) rows) + K = length rows"
    using sum_length_filter_compl [of "\<lambda>r. row_key r = Some v" rows] K(1)
    by (simp add: key_count_def)
  then have len: "length (after_removal rows) + (K - 1) = length rows"
    using K(2) by (simp add: eq)
  from after one hd(1) hd(3) len show ?thesis by blast
qed

lemma single_repeated_key_example:
  "\<exists>s' rows' r. removal_steps calm (start sales_db) ''sales.orders'' ''order_id'' = Inr s' \<and>
      tables (db s') ''sales.orders'' = Some rows' \<and>
      filter (\<lambda>r. row_key r = Some 5) rows' = [r] \<and> r \<in> set orders_rows \<and>
      length rows' + (3 - 1) = length orders_rows"
proof -
  have "\<not> isl (removal_steps calm (start sales_db) ''sales.orders'' ''order_id'')"
    by code_simp
  then obtain s' where s': "removal_steps calm (start sales_db) ''sales.orders'' ''order_id'' = Inr s'"
    by (cases "removal_steps calm (start sales_db) ''sales.orders'' ''order_id''") auto
  have rows: "tables (db (start sales_db)) ''sales.orders'' = Some orders_rows"
    by (simp add: start_def sales_db_def)
  have K: "key_count orders_rows (Some 5) = 3" "(1::nat) < 3"
    by (simp_all add: key_count_def orders_rows_def order5_def order6_def)
  have others: "key_count orders_rows k \<le> 1" if "k \<noteq> Some 5" for k
    using that by (simp add: key_count_def orders_rows_def order5_def order6_def)
  from single_repeated_key [OF s' rows K others] s' show ?thesis
    by blast
qed

text \<open>
  Claim C5 (the code departs from it). \<open>sales.orders\<close> holds one row with the key
  \<open>NULL\<close> twice: one key, occurring \<open>K = 2\<close> times, which the detector reports as a
  duplicate group. The four steps complete, and afterwards the table has three rows
  with that key instead of one: step 1 stages one of the rows (\<open>PARTITION BY\<close> puts the
  \<open>NULL\<close>s together), the \<open>DELETE\<close> of step 2 compares keys with \<open>=\<close> and so matches no
  \<open>NULL\<close> row, and step 3 inserts the staged row in addition.
\<close>

theorem null_key_rows_multiply:
  "duplicate_check_query [n1, n1] = [(Some 20240101, None, 2)] \<and>
   key_count [n1, n1] None = 2 \<and>
   map_option trace (returned (remove_duplicates calm null_db)) =
     Some [Connect,
           Execute (Detect ''sales.orders'' ''order_id''),
           Execute (Stage ''sales.orders'' ''order_id''),
           Execute (Delete ''sales.orders'' ''order_id''),
           Execute (Reinsert ''sales.orders''),
           Execute (DropSide ''sales.orders''),
           Email ''Duplicate Removal Notification for sales.orders''
             ''Duplicates have been successfully removed from sales.orders.'',
           Execute (Detect ''sales.items'' ''item_id''),
           Close] \<and>
   map_option (\<lambda>s. tables (db s) ''sales.orders'') (returned (remove_duplicates calm null_db)) =
     Some (Some [n1, n1, n1])"
  by code_simp

section \<open>Running the remover twice\<close>

text \<open>
  On a tidy database and in a calm world the remover is idempotent: the first run keeps the
  database tidy and leaves every table it visited clean; a run that finds its tables clean
  changes nothing and sends none of the four steps.
\<close>

lemma process_section_eq:
  "process_section w sec s =
     (case section_table w sec of
        Inl e \<Rightarrow> Inl (e, s)
      | Inr (t, c) \<Rightarrow> process_table w s t c)"
  by (simp add: process_section_def section_table_def split: sum.splits)

lemma group_count_le_key_count: "group_count t d k \<le> key_count t k"
  unfolding group_count_def key_count_def
  by (induction t) auto

lemma unique_keys_no_result:
  assumes "\<And>k. key_count t k \<le> 1"
  shows "duplicate_check_query t = []"
proof -
  have "group_count t d k \<le> 1" for d k
    using group_count_le_key_count [of t d k] assms [of k] by simp
  then have "set (duplicate_check_query t) = {}"
    unfolding set_duplicate_check_query by (auto simp: not_less)
  then show ?thesis by simp
qed

lemma key_count_zero: "k \<notin> row_key ` set t \<Longrightarrow> key_count t k = 0"
  by (auto simp: key_count_def filter_empty_conv)

lemma after_removal_clean:
  assumes "None \<notin> row_key ` set rows"
  shows "duplicate_check_query (after_removal rows) = []"
proof (rule unique_keys_no_result)
  fix k
  show "key_count (after_removal rows) k \<le> 1"
    using assms key_count_zero [of None rows]
    by (auto simp: key_count_after_removal)
qed

lemma set_after_removal: "set (after_removal rows) \<subseteq> set rows"
proof -
  have "hd (partition_rows rows k) \<in> set rows" if "k \<in> set (dup_keys rows)" for k
    using that hd_partition_rows(1) [of rows k] by (simp add: set_dup_keys)
  then show ?thesis
    by (auto simp: after_removal_eq)
qed

lemma process_table_failed_detection:
  assumes "execute w (Detect t c) s = Inl (e, s1)"
  shows "process_table w s t c =
           Inr (send_email ''Error Checking Duplicates''
                  (''Error checking duplicates in '' @ t @ '': '' @ e) s1)"
    and "s1 = s\<lparr>trace := trace s @ [Execute (Detect t c)]\<rparr>"
proof -
  show "process_table w s t c =
           Inr (send_email ''Error Checking Duplicates''
                  (''Error checking duplicates in '' @ t @ '': '' @ e) s1)"
    using assms by (simp add: process_table_def check_for_duplicates_def truthy_def)
  show "s1 = s\<lparr>trace := trace s @ [Execute (Detect t c)]\<rparr>"
    using assms by (rule execute_Inl)
qed

lemma process_table_tidy:
  assumes "calm_world w" and "tidy (db s)"
  shows "\<exists>s'. process_table w s t c = Inr s' \<and> tidy (db s') \<and> clean (db s') t \<and>
           (\<forall>t'. t' \<noteq> t \<longrightarrow> tables (db s') t' = tables (db s) t')"
proof (cases "execute w (Detect t c) s")
  case (Inl x)
  obtain e s1 where x: "x = (e, s1)" by (cases x)
  have none: "tables (db s) t = None"
    using Inl assms(1) by (auto simp: execute_def calm_world_def split: option.splits)
  from process_table_failed_detection [OF Inl [unfolded x]] none assms(2)
  show ?thesis
    by (auto simp: clean_def send_email_def)
next
  case (Inr s1)
  then obtain rows where rows: "tables (db s) t = Some rows"
    and s1: "s1 = s\<lparr>trace := trace s @ [Execute (Detect t c)],
                   cursor := duplicate_check_query rows\<rparr>"
    by (auto simp: execute_Detect_Inr_iff)
  have chk: "check_for_duplicates w s t c = (Some (duplicate_check_query rows), s1)"
    by (simp add: check_for_duplicates_def Inr s1)
  show ?thesis
  proof (cases "duplicate_check_query rows = []")
    case True
    then have "process_table w s t c = Inr s1"
      by (simp add: process_table_def chk truthy_def)
    then show ?thesis
      using assms(2) rows True by (auto simp: s1 clean_def)
  next
    case False
    have sd: "sides (db s1) t = None" "tables (db s1) t = Some rows"
      using assms(2) rows by (simp_all add: s1 tidy_def)
    obtain s' where steps: "removal_steps w s1 t c = Inr s'"
      using removal_steps_succeeds [OF sd(2) sd(1), where w = w and c = c] assms(1)
      by (auto simp: calm_world_def)
    from removal_steps_Inr [OF steps] sd
    have d': "db s' = (db s)\<lparr>tables := (tables (db s))(t \<mapsto> after_removal rows)\<rparr>"
      by (auto simp: s1)
    have nn: "None \<notin> row_key ` set rows"
      using assms(2) rows by (auto simp: tidy_def no_null_keys_def)
    have p: "process_table w s t c = Inr s'"
      using False by (simp add: process_table_def chk truthy_def
          remove_duplicates_from_table_def steps)
    have "tidy (db s')"
      using assms(2) nn set_after_removal [of rows]
      by (auto simp: d' tidy_def no_null_keys_def)
    moreover have "clean (db s') t"
      using after_removal_clean [OF nn] by (simp add: d' clean_def)
    ultimately show ?thesis
      using p by (auto simp: d')
  qed
qed

lemma quiet_refl: "quiet ts s s"
  by (simp add: quiet_def)

lemma quiet_trans:
  assumes "quiet [t] s s1" and "quiet ts s1 s2"
  shows "quiet (t # ts) s s2"
proof -
  from assms(1) obtain new1 where 1: "db s1 = db s" "trace s1 = trace s @ new1"
      "list_all (\<lambda>e. \<not> removal_stmt e) new1"
      "\<forall>t' c. Execute (Detect t' c) \<in> set new1 \<longrightarrow> t' = t"
    by (auto simp: quiet_def)
  from assms(2) obtain new2 where 2: "db s2 = db s1" "trace s2 = trace s1 @ new2"
      "list_all (\<lambda>e. \<not> removal_stmt e) new2"
      "\<forall>t' c. Execute (Detect t' c) \<in> set new2 \<longrightarrow> t' \<in> set ts"
    by (auto simp: quiet_def)
  have "trace s2 = trace s @ (new1 @ new2)" using 1 2 by simp
  moreover have "list_all (\<lambda>e. \<not> removal_stmt e) (new1 @ new2)" using 1 2 by simp
  moreover have "\<forall>t' c. Execute (Detect t' c) \<in> set (new1 @ new2) \<longrightarrow> t' \<in> set (t # ts)"
    using 1(4) 2(4) by auto
  ultimately show ?thesis
    unfolding quiet_def using 1(1) 2(1) by (intro conjI exI [of _ "new1 @ new2"]) simp_all
qed

lemma process_table_quiet:
  assumes "clean (db s) t"
  shows "\<exists>s'. process_table w s t c = Inr s' \<and> quiet [t] s s'"
proof (cases "execute w (Detect t c) s")
  case (Inl x)
  obtain e s1 where x: "x = (e, s1)" by (cases x)
  from process_table_failed_detection [OF Inl [unfolded x]]
  show ?thesis
    by (auto simp: quiet_def removal_stmt_def send_email_def)
next
  case (Inr s1)
  then obtain rows where rows: "tables (db s) t = Some rows"
    and s1: "s1 = s\<lparr>trace := trace s @ [Execute (Detect t c)],
                   cursor := duplicate_check_query rows\<rparr>"
    by (auto simp: execute_Detect_Inr_iff)
  have q: "duplicate_check_query rows = []"
    using assms rows by (simp add: clean_def)
  have "process_table w s t c = Inr s1"
    by (simp add: process_table_def check_for_duplicates_def Inr s1 q truthy_def)
  then show ?thesis
    by (auto simp: quiet_def s1 removal_stmt_def)
qed

lemma process_sections_quiet:
  assumes "\<And>t. t \<in> set (visited w secs) \<Longrightarrow> clean (db s) t"
  shows "quiet (visited w secs) s (state_of (process_sections w secs s))"
  using assms
proof (induction secs arbitrary: s)
  case Nil
  then show ?case by (simp add: quiet_refl)
next
  case (Cons sec secs)
  show ?case
  proof (cases "prefix ''yoda_hub'' sec")
    case False
    then show ?thesis using Cons by simp
  next
    case True
    show ?thesis
    proof (cases "section_table w sec")
      case (Inl e)
      then show ?thesis
        using True by (simp add: process_section_eq quiet_refl)
    next
      case (Inr tc)
      obtain t c where tc: "tc = (t, c)" by (cases tc)
      have v: "visited w (sec # secs) = t # visited w secs"
        using True Inr tc by simp
      have "clean (db s) t" using Cons.prems v by simp
      then obtain s1 where s1: "process_table w s t c = Inr s1" "quiet [t] s s1"
        using process_table_quiet by blast
      have "clean (db s1) t'" if "t' \<in> set (visited w secs)" for t'
        using Cons.prems [of t'] that v s1(2) by (simp add: quiet_def clean_def)
      then have "quiet (visited w secs) s1 (state_of (process_sections w secs s1))"
        by (rule Cons.IH)
      with s1(2) have "quiet (t # visited w secs) s (state_of (process_sections w secs s1))"
        by (rule quiet_trans)
      then show ?thesis
        using True Inr tc s1(1) v by (simp add: process_section_eq)
    qed
  qed
qed

lemma process_sections_tidy:
  assumes "calm_world w" and "tidy (db s)"
  shows "tidy (db (state_of (process_sections w secs s))) \<and>
         (\<forall>t. clean (db s) t \<longrightarrow> clean (db (state_of (process_sections w secs s))) t) \<and>
         (\<forall>t \<in> set (visited w secs). clean (db (state_of (process_sections w secs s))) t)"
  using assms(2)
proof (induction secs arbitrary: s)
  case Nil
  then show ?case by simp
next
  case (Cons sec secs)
  show ?case
  proof (cases "prefix ''yoda_hub'' sec")
    case False
    then show ?thesis using Cons by simp
  next
    case True
    show ?thesis
    proof (cases "section_table w sec")
      case (Inl e)
      then show ?thesis
        using True Cons.prems by (simp add: process_section_eq)
    next
      case (Inr tc)
      obtain t c where tc: "tc = (t, c)" by (cases tc)
      from process_table_tidy [OF assms(1) Cons.prems, of t c]
      obtain s1 where s1: "process_table w s t c = Inr s1" "tidy (db s1)" "clean (db s1) t"
          "\<forall>t'. t' \<noteq> t \<longrightarrow> tables (db s1) t' = tables (db s) t'"
        by blast
      have keep: "clean (db s1) t'" if "clean (db s) t'" for t'
        using that s1(3,4) by (cases "t' = t") (auto simp: clean_def)
      have r: "process_sections w (sec # secs) s = process_sections w secs s1"
        using True Inr tc s1(1) by (simp add: process_section_eq)
      have v: "visited w (sec # secs) = t # visited w secs"
        using True Inr tc by simp
      from Cons.IH [OF s1(2)] keep s1(3) show ?thesis
        unfolding r v by auto
    qed
  qed
qed

lemma remove_duplicates_not_connected:
  assumes "remove_duplicates w d = Inr s" and "\<not> connects w"
  shows "db s = d \<and> (\<exists>e. trace s = [Email ''Error in Duplicate Removal Process''
                                   (''Failed to process: '' @ e)])"
  using assms
  by (auto simp: remove_duplicates_def remove_duplicates_try_def connects_def start_def
        send_email_def split: sum.splits option.splits)

lemma remove_duplicates_connected:
  assumes "remove_duplicates w d = Inr s" and "connects w"
  shows "\<exists>extra. db s = db (state_of (process_sections w (map fst (files w ''r_duplicates.ini''))
                                 ((start d)\<lparr>trace := trace (start d) @ [Connect]\<rparr>))) \<and>
           trace s = trace (state_of (process_sections w (map fst (files w ''r_duplicates.ini''))
                                 ((start d)\<lparr>trace := trace (start d) @ [Connect]\<rparr>))) @ extra \<and>
           list_all (\<lambda>e. \<not> removal_stmt e \<and> (\<forall>t c. e \<noteq> Execute (Detect t c))) extra"
proof -
  let ?r = "process_sections w (map fst (files w ''r_duplicates.ini''))
              ((start d)\<lparr>trace := trace (start d) @ [Connect]\<rparr>)"
  obtain config where cfg: "server_config w ''r_duplicates.ini'' ''yoda_r_lake'' = Inr config"
    using assms(2) by (auto simp: connects_def split: sum.splits)
  have t: "remove_duplicates_try w config (start d) = (?r, True)"
    using assms(2) cfg
    by (auto simp: connects_def remove_duplicates_try_def split: sum.splits)
  show ?thesis
  proof (cases ?r)
    case (Inl x)
    obtain e s1 where x: "x = (e, s1)" by (cases x)
    have "s = (send_email ''Error in Duplicate Removal Process'' (''Failed to process: '' @ e) s1)
                \<lparr>trace := trace (send_email ''Error in Duplicate Removal Process''
                                   (''Failed to process: '' @ e) s1) @ [Close]\<rparr>"
      using assms(1) by (auto simp: remove_duplicates_def cfg t Inl x Let_def)
    then show ?thesis
      unfolding Inl x
      by (intro exI [of _ "[Email ''Error in Duplicate Removal Process''
                                   (''Failed to process: '' @ e), Close]"])
         (simp add: send_email_def removal_stmt_def)
  next
    case (Inr s1)
    have "s = s1\<lparr>trace := trace s1 @ [Close]\<rparr>"
      using assms(1) by (auto simp: remove_duplicates_def cfg t Inr Let_def)
    then show ?thesis
      unfolding Inr
      by (intro exI [of _ "[Close]"]) (simp add: removal_stmt_def)
  qed
qed

lemma remover_idempotent_on_tidy_database:
  assumes "calm_world w" and "tidy d"
    and "remove_duplicates w d = Inr s1" and "remove_duplicates w (db s1) = Inr s2"
  shows "db s2 = db s1 \<and>
         list_all (\<lambda>e. \<not> removal_stmt e) (trace s2) \<and>
         (\<forall>t c. Execute (Detect t c) \<in> set (trace s2) \<longrightarrow> clean (db s1) t)"
proof (cases "connects w")
  case False
  from remove_duplicates_not_connected [OF assms(4) False]
  show ?thesis
    by (auto simp: removal_stmt_def)
next
  case True
  let ?secs = "map fst (files w ''r_duplicates.ini'')"
  let ?s0 = "\<lambda>d. (start d)\<lparr>trace := trace (start d) @ [Connect]\<rparr>"
  from remove_duplicates_connected [OF assms(3) True]
  have d1: "db s1 = db (state_of (process_sections w ?secs (?s0 d)))"
    by blast
  have "tidy (db (?s0 d))"
    using assms(2) by (simp add: start_def)
  from process_sections_tidy [OF assms(1) this, of ?secs]
  have cl: "\<And>t. t \<in> set (visited w ?secs) \<Longrightarrow> clean (db s1) t"
    unfolding d1 by blast
  have "\<And>t. t \<in> set (visited w ?secs) \<Longrightarrow> clean (db (?s0 (db s1))) t"
    using cl by (simp add: start_def)
  from process_sections_quiet [OF this]
  have q: "quiet (visited w ?secs) (?s0 (db s1))
             (state_of (process_sections w ?secs (?s0 (db s1))))"
    by blast
  then obtain new where new:
      "db (state_of (process_sections w ?secs (?s0 (db s1)))) = db s1"
      "trace (state_of (process_sections w ?secs (?s0 (db s1)))) = [Connect] @ new"
      "list_all (\<lambda>e. \<not> removal_stmt e) new"
      "\<forall>t c. Execute (Detect t c) \<in> set new \<longrightarrow> t \<in> set (visited w ?secs)"
    by (auto simp: quiet_def start_def)
  from remove_duplicates_connected [OF assms(4) True] obtain extra where extra:
      "db s2 = db (state_of (process_sections w ?secs (?s0 (db s1))))"
      "trace s2 = trace (state_of (process_sections w ?secs (?s0 (db s1)))) @ extra"
      "list_all (\<lambda>e. \<not> removal_stmt e \<and> (\<forall>t c. e \<noteq> Execute (Detect t c))) extra"
    by blast
  have "db s2 = db s1" using extra(1) new(1) by simp
  moreover have "list_all (\<lambda>e. \<not> removal_stmt e) (trace s2)"
    using extra(2,3) new(2,3) by (auto simp: list_all_iff removal_stmt_def)
  moreover have "clean (db s1) t" if "Execute (Detect t c) \<in> set (trace s2)" for t c
  proof -
    from that extra(2,3) new(2) have "Execute (Detect t c) \<in> set new"
      by (auto simp: list_all_iff)
    with new(4) cl show ?thesis by blast
  qed
  ultimately show ?thesis by blast
qed

lemma remover_idempotent_example:
  "\<exists>s1 s2. remove_duplicates calm sales_db = Inr s1 \<and>
      remove_duplicates calm (db s1) = Inr s2 \<and> db s2 = db s1 \<and>
      list_all (\<lambda>e. \<not> removal_stmt e) (trace s2)"
proof -
  have c: "calm_world calm"
    by (simp add: calm_world_def calm_def)
  have t: "tidy sales_db"
    by (auto simp: tidy_def no_null_keys_def sales_db_def orders_rows_def items_rows_def
          order5_def order6_def split: if_splits)
  have "\<not> isl (remove_duplicates calm sales_db)"
    by code_simp
  then obtain s1 where s1: "remove_duplicates calm sales_db = Inr s1"
    by (cases "remove_duplicates calm sales_db") auto
  have "\<not> isl (remove_duplicates_twice calm calm sales_db)"
    by code_simp
  then obtain s2 where s2: "remove_duplicates calm (db s1) = Inr s2"
    by (cases "remove_duplicates calm (db s1)") (auto simp: remove_duplicates_twice_def s1)
  from remover_idempotent_on_tidy_database [OF c t s1 s2] s1 s2 show ?thesis
    by blast
qed

text \<open>
  Claim C4 (the code departs from it). On the table with the two \<open>NULL\<close>-keyed rows the
  first run leaves three such rows, so the second run's detection is not empty: the second
  run sends all four steps again and leaves four rows. Without \<open>NULL\<close> keys, left-over
  side tables and failing statements the second run is the no-op of the claim
  (\<open>remover_idempotent_on_tidy_database\<close>).
\<close>

theorem second_run_removes_again:
  "map_option (\<lambda>s. tables (db s) ''sales.orders'') (returned (remove_duplicates calm null_db)) =
     Some (Some [n1, n1, n1]) \<and>
   duplicate_check_query [n1, n1, n1] = [(Some 20240101, None, 3)] \<and>
   map_option trace (returned (remove_duplicates_twice calm calm null_db)) =
     Some [Connect,
           Execute (Detect ''sales.orders'' ''order_id''),
           Execute (Stage ''sales.orders'' ''order_id''),
           Execute (Delete ''sales.orders'' ''order_id''),
           Execute (Reinsert ''sales.orders''),
           Execute (DropSide ''sales.orders''),
           Email ''Duplicate Removal Notification for sales.orders''
             ''Duplicates have been successfully removed from sales.orders.'',
           Execute (Detect ''sales.items'' ''item_id''),
           Close] \<and>
   map_option (\<lambda>s. tables (db s) ''sales.orders'')
       (returned (remove_duplicates_twice calm calm null_db)) =
     Some (Some [n1, n1, n1, n1])"
  by code_simp

section \<open>The checker's alert\<close>

lemma map_fst_setdefault_append:
  "map fst (setdefault_append g n k) = (if n \<in> fst ` set g then map fst g else map fst g @ [n])"
  by (induction g n k rule: setdefault_append.induct) auto

lemma map_of_setdefault_append:
  "map_of (setdefault_append g n k) =
     (map_of g)(n \<mapsto> (case map_of g n of None \<Rightarrow> [k] | Some ks \<Rightarrow> ks @ [k]))"
  by (induction g n k rule: setdefault_append.induct) (auto simp: fun_eq_iff)

lemma group_duplicates_snoc:
  "group_duplicates (rs @ [(d, k, n)]) = setdefault_append (group_duplicates rs) n k"
  by (simp add: group_duplicates_def)

lemma group_duplicates_Nil: "group_duplicates [] = []"
  by (simp add: group_duplicates_def)

lemma group_duplicates_keys:
  "distinct (map fst (group_duplicates rs)) \<and>
   set (map fst (group_duplicates rs)) = {n. \<exists>d k. (d, k, n) \<in> set rs}"
proof (induction rs rule: rev_induct)
  case Nil
  then show ?case by (simp add: group_duplicates_Nil)
next
  case (snoc x rs)
  obtain d k n where x: "x = (d, k, n)" by (cases x)
  from snoc show ?case
    unfolding x group_duplicates_snoc map_fst_setdefault_append
    by auto
qed

lemma filter_count_empty:
  "(\<And>d k. (d, k, n) \<notin> set rs) \<Longrightarrow> filter (\<lambda>(d, k, c). c = n) rs = []"
  by (auto simp: filter_empty_conv)

lemma group_duplicates_lookup:
  "map_of (group_duplicates rs) n =
     (if \<exists>d k. (d, k, n) \<in> set rs
      then Some (map (\<lambda>(d, k, n). k) (filter (\<lambda>(d, k, c). c = n) rs)) else None)"
proof (induction rs rule: rev_induct)
  case Nil
  then show ?case by (simp add: group_duplicates_Nil)
next
  case (snoc x rs)
  obtain d k m where x: "x = (d, k, m)" by (cases x)
  from snoc show ?case
    unfolding x group_duplicates_snoc map_of_setdefault_append
    by (auto simp: filter_count_empty)
qed

lemma group_duplicates_entry:
  assumes "(n, ks) \<in> set (group_duplicates rs)"
  shows "length ks = groups_with n rs"
proof -
  have "map_of (group_duplicates rs) n = Some ks"
    using assms group_duplicates_keys [of rs] by simp
  then show ?thesis
    by (auto simp: group_duplicates_lookup groups_with_def split: if_splits)
qed

lemma print_duplicate_info_lines:
  "print_duplicate_info dn tn (group_duplicates rs) =
     nl @ ''Duplicates found in '' @ dn @ ''.'' @ tn @ '':'' @ nl @
     concat (map (\<lambda>n. affected_line (groups_with n rs) n) (map fst (group_duplicates rs)))"
proof -
  have "map (\<lambda>(duplicate_count, rows). affected_line (length rows) duplicate_count)
          (group_duplicates rs) =
        map (\<lambda>n. affected_line (groups_with n rs) n) (map fst (group_duplicates rs))"
    by (auto simp: group_duplicates_entry)
  then show ?thesis
    by (simp only: print_duplicate_info_def)
qed

lemma sublist_concat_map:
  "x \<in> set xs \<Longrightarrow> sublist (f x) (concat (map f xs))"
  by (auto dest!: split_list)

lemma sublist_trans_append:
  "sublist xs ys \<Longrightarrow> sublist xs (ps @ ys @ ss)"
  by (metis append.assoc sublist_def)


lemma sublist_in_suffix: "sublist xs ys \<Longrightarrow> sublist xs (ps @ ys)"
  by (metis sublist_def append.assoc)

lemma sublist_in_prefix: "sublist xs ys \<Longrightarrow> sublist xs (ys @ ss)"
  by (metis sublist_def append.assoc)

lemma alert_text_fields:
  "sublist (''Source Host: '' @ h @ nl) (alert_text dn tn ts h rt c tot)"
  "sublist (''Source Replication Task: '' @ rt @ nl) (alert_text dn tn ts h rt c tot)"
  "sublist (''Source Database: '' @ dn @ nl) (alert_text dn tn ts h rt c tot)"
  "sublist (''Source Table: '' @ tn @ nl) (alert_text dn tn ts h rt c tot)"
  "sublist (''Source Column: '' @ c @ nl) (alert_text dn tn ts h rt c tot)"
  "sublist (''Total number of rows = '' @ str_nat tot @ nl) (alert_text dn tn ts h rt c tot)"
proof -
  let ?a = "''Duplicate(s) found in '' @ dn @ ''.'' @ tn @ '' at '' @ ts @ ''.'' @ nl @ nl @
            ''DETAILS:'' @ nl"
  let ?h = "''Source Host: '' @ h @ nl"
  let ?r = "''Source Replication Task: '' @ rt @ nl"
  let ?d = "''Source Database: '' @ dn @ nl"
  let ?t = "''Source Table: '' @ tn @ nl"
  let ?c = "''Source Column: '' @ c @ nl"
  let ?n = "''Total number of rows = '' @ str_nat tot @ nl"
  have eq: "alert_text dn tn ts h rt c tot = ?a @ ?h @ ?r @ ?d @ ?t @ ?c @ nl @ ?n @ nl"
    by (simp add: alert_text_def)
  show "sublist ?h (alert_text dn tn ts h rt c tot)"
    unfolding eq by (rule sublist_appendI)
  show "sublist ?r (alert_text dn tn ts h rt c tot)"
    unfolding eq by (intro sublist_in_suffix [of _ _ ?a] sublist_in_suffix [of _ _ ?h])
      (rule sublist_append_rightI)
  show "sublist ?d (alert_text dn tn ts h rt c tot)"
    unfolding eq
    by (intro sublist_in_suffix [of _ _ ?a] sublist_in_suffix [of _ _ ?h]
          sublist_in_suffix [of _ _ ?r]) (rule sublist_append_rightI)
  show "sublist ?t (alert_text dn tn ts h rt c tot)"
    unfolding eq
    by (intro sublist_in_suffix [of _ _ ?a] sublist_in_suffix [of _ _ ?h]
          sublist_in_suffix [of _ _ ?r] sublist_in_suffix [of _ _ ?d])
       (rule sublist_append_rightI)
  show "sublist ?c (alert_text dn tn ts h rt c tot)"
    unfolding eq
    by (intro sublist_in_suffix [of _ _ ?a] sublist_in_suffix [of _ _ ?h]
          sublist_in_suffix [of _ _ ?r] sublist_in_suffix [of _ _ ?d]
          sublist_in_suffix [of _ _ ?t])
       (rule sublist_append_rightI)
  show "sublist ?n (alert_text dn tn ts h rt c tot)"
    unfolding eq
    by (intro sublist_in_suffix [of _ _ ?a] sublist_in_suffix [of _ _ ?h]
          sublist_in_suffix [of _ _ ?r] sublist_in_suffix [of _ _ ?d]
          sublist_in_suffix [of _ _ ?t] sublist_in_suffix [of _ _ ?c]
          sublist_in_suffix [of _ _ nl])
       (rule sublist_append_rightI)
qed

lemma summary_lines:
  assumes "n \<in> set counts"
  shows "sublist (affected_line (N n) n)
           (nl @ ''Duplicates found in '' @ dn @ ''.'' @ tn @ '':'' @ nl @
            concat (map (\<lambda>n. affected_line (N n) n) counts))"
proof -
  have "sublist (affected_line (N n) n) (concat (map (\<lambda>n. affected_line (N n) n) counts))"
    using assms by (rule sublist_concat_map)
  then show ?thesis
    by (intro sublist_in_suffix)
qed

text \<open>
  Claim C8, amended. When the checker's query on a table returns duplicate groups, the
  checker sends one mail and one chat message. Both end with the same summary: a heading
  naming database and table, then exactly one line \<open>N row(s) affected: with K duplicates
  per row\<close> for each distinct duplicate count \<open>K\<close>, where \<open>N\<close> is the number of groups with
  that count. The mail body has, before the summary, the source host, the replication task,
  the database, the table, the column, and as \<open>Total number of rows\<close> the number of
  duplicate groups. The chat message has nothing before the summary but its own heading
  with database and table.
\<close>

theorem alert_contents:
  assumes "tables (db s) (database_name @ ''.'' @ table_name) = Some rows"
    and "stmt_error w (length (trace s))
           (Detect (database_name @ ''.'' @ table_name) unique_key) = None"
    and "duplicate_check_query rows \<noteq> []"
  shows "\<exists>s' subject body message summary counts.
           check_table w s email_config url unique_key database_name table_name host_name task
             = Inr s' \<and>
           trace s' = trace s @
             [Execute (Detect (database_name @ ''.'' @ table_name) unique_key),
              Email subject body, Slack url message] \<and>
           distinct counts \<and>
           set counts = {n. \<exists>d k. (d, k, n) \<in> set (duplicate_check_query rows)} \<and>
           summary = nl @ ''Duplicates found in '' @ database_name @ ''.'' @ table_name @ '':'' @ nl @
             concat (map (\<lambda>n. affected_line (groups_with n (duplicate_check_query rows)) n) counts) \<and>
           body = alert_text database_name table_name (now w (Suc (length (trace s))) 1)
                    host_name task unique_key (length (duplicate_check_query rows)) @ summary \<and>
           message = slack_text database_name table_name summary \<and>
           (\<forall>n. n \<in> set counts \<longrightarrow>
              sublist (affected_line (groups_with n (duplicate_check_query rows)) n) body \<and>
              sublist (affected_line (groups_with n (duplicate_check_query rows)) n) message) \<and>
           sublist (''Source Host: '' @ host_name @ nl) body \<and>
           sublist (''Source Replication Task: '' @ task @ nl) body \<and>
           sublist (''Source Database: '' @ database_name @ nl) body \<and>
           sublist (''Source Table: '' @ table_name @ nl) body \<and>
           sublist (''Source Column: '' @ unique_key @ nl) body \<and>
           sublist (''Total number of rows = '' @ str_nat (length (duplicate_check_query rows)) @ nl)
             body \<and>
           sublist (database_name @ ''.'' @ table_name) message"
proof -
  let ?t = "database_name @ ''.'' @ table_name"
  let ?rs = "duplicate_check_query rows"
  define counts where "counts = map fst (group_duplicates ?rs)"
  define summary where "summary =
    nl @ ''Duplicates found in '' @ database_name @ ''.'' @ table_name @ '':'' @ nl @
    concat (map (\<lambda>n. affected_line (groups_with n ?rs) n) counts)"
  define subject where
    "subject = alert_subject database_name table_name (now w (Suc (length (trace s))) 0)"
  define heading where
    "heading = alert_text database_name table_name (now w (Suc (length (trace s))) 1)
                 host_name task unique_key (length ?rs)"
  define body where "body = heading @ summary"
  define message where "message = slack_text database_name table_name summary"
  define s' where "s' = s\<lparr>trace := trace s @ [Execute (Detect ?t unique_key), Email subject body,
                              Slack url message], cursor := ?rs\<rparr>"
  have e: "execute w (Detect ?t unique_key) s =
             Inr (s\<lparr>trace := trace s @ [Execute (Detect ?t unique_key)], cursor := ?rs\<rparr>)"
    using assms(1,2) by (rule execute_Detect_Inr)
  have p: "print_duplicate_info database_name table_name (group_duplicates ?rs) = summary"
    unfolding summary_def counts_def by (rule print_duplicate_info_lines)
  have c: "check_table w s email_config url unique_key database_name table_name host_name task
             = Inr s'"
    unfolding check_table_def e using assms(3)
    by (simp add: Let_def p s'_def send_slack_alert_def send_email_checker_def
          body_def message_def heading_def subject_def)
  have t: "trace s' = trace s @ [Execute (Detect ?t unique_key), Email subject body,
             Slack url message]"
    by (simp add: s'_def)
  have k: "distinct counts" "set counts = {n. \<exists>d k. (d, k, n) \<in> set ?rs}"
    using group_duplicates_keys [of ?rs] by (simp_all add: counts_def)
  have meq: "message = (''Alert: Duplicates found in '' @ database_name @ ''.'' @
                         table_name @ '':'' @ nl) @ summary"
    by (simp add: message_def slack_text_def)
  have lines: "sublist (affected_line (groups_with n ?rs) n) body \<and>
               sublist (affected_line (groups_with n ?rs) n) message"
    if "n \<in> set counts" for n
  proof
    have l: "sublist (affected_line (groups_with n ?rs) n) summary"
      unfolding summary_def using that by (rule summary_lines)
    show "sublist (affected_line (groups_with n ?rs) n) body"
      unfolding body_def using l by (rule sublist_in_suffix)
    show "sublist (affected_line (groups_with n ?rs) n) message"
      unfolding meq using l by (rule sublist_in_suffix)
  qed
  have meq2: "message = ''Alert: Duplicates found in '' @ (database_name @ ''.'' @ table_name) @
                         ('':'' @ nl @ summary)"
    by (simp add: message_def slack_text_def)
  have m: "sublist (database_name @ ''.'' @ table_name) message"
    unfolding meq2 by (rule sublist_appendI)
  note f = alert_text_fields [where h = host_name and dn = database_name and tn = table_name
      and ts = "now w (Suc (length (trace s))) 1" and rt = task and c = unique_key
      and tot = "length ?rs", folded heading_def,
      THEN sublist_in_prefix, where ss = summary, folded body_def]
  have b: "body = alert_text database_name table_name (now w (Suc (length (trace s))) 1)
                    host_name task unique_key (length ?rs) @ summary"
    by (simp add: body_def heading_def)
  have sm: "summary = nl @ ''Duplicates found in '' @ database_name @ ''.'' @ table_name @ '':'' @ nl @
             concat (map (\<lambda>n. affected_line (groups_with n ?rs) n) counts)"
    by (rule summary_def)
  have mm: "message = slack_text database_name table_name summary"
    by (rule message_def)
  from lines have lines': "\<forall>n. n \<in> set counts \<longrightarrow>
      sublist (affected_line (groups_with n ?rs) n) body \<and>
      sublist (affected_line (groups_with n ?rs) n) message"
    by blast
  show ?thesis
    by (rule exI [of _ s'], rule exI [of _ subject], rule exI [of _ body],
        rule exI [of _ message], rule exI [of _ summary], rule exI [of _ counts])
       (intro conjI c t k sm b mm lines' f m)
qed

theorem alert_contents_witness:
  "tables (db (start sales_db)) (''sales'' @ ''.'' @ ''orders'') = Some orders_rows \<and>
   stmt_error calm (length (trace (start sales_db)))
     (Detect (''sales'' @ ''.'' @ ''orders'') ''order_id'') = None \<and>
   duplicate_check_query orders_rows \<noteq> [] \<and>
   (\<exists>s' subject body message summary counts.
           check_table calm (start sales_db) Map.empty ''https://hooks.example.org/T1'' ''order_id'' ''sales'' ''orders'' ''src-db-1'' ''task-7''
             = Inr s' \<and>
           trace s' = trace (start sales_db) @
             [Execute (Detect (''sales'' @ ''.'' @ ''orders'') ''order_id''),
              Email subject body, Slack ''https://hooks.example.org/T1'' message] \<and>
           distinct counts \<and>
           set counts = {n. \<exists>d k. (d, k, n) \<in> set (duplicate_check_query orders_rows)} \<and>
           summary = nl @ ''Duplicates found in '' @ ''sales'' @ ''.'' @ ''orders'' @ '':'' @ nl @
             concat (map (\<lambda>n. affected_line (groups_with n (duplicate_check_query orders_rows)) n) counts) \<and>
           body = alert_text ''sales'' ''orders'' (now calm (Suc (length (trace (start sales_db)))) 1)
                    ''src-db-1'' ''task-7'' ''order_id'' (length (duplicate_check_query orders_rows)) @ summary \<and>
           message = slack_text ''sales'' ''orders'' summary \<and>
           (\<forall>n. n \<in> set counts \<longrightarrow>
              sublist (affected_line (groups_with n (duplicate_check_query orders_rows)) n) body \<and>
              sublist (affected_line (groups_with n (duplicate_check_query orders_rows)) n) message) \<and>
           sublist (''Source Host: '' @ ''src-db-1'' @ nl) body \<and>
           sublist (''Source Replication Task: '' @ ''task-7'' @ nl) body \<and>
           sublist (''Source Database: '' @ ''sales'' @ nl) body \<and>
           sublist (''Source Table: '' @ ''orders'' @ nl) body \<and>
           sublist (''Source Column: '' @ ''order_id'' @ nl) body \<and>
           sublist (''Total number of rows = '' @ str_nat (length (duplicate_check_query orders_rows)) @ nl)
             body \<and>
           sublist (''sales'' @ ''.'' @ ''orders'') message)"
proof -
  have h1: "tables (db (start sales_db)) (''sales'' @ ''.'' @ ''orders'') = Some orders_rows"
    by (simp add: start_def sales_db_def)
  have h2: "stmt_error calm (length (trace (start sales_db)))
              (Detect (''sales'' @ ''.'' @ ''orders'') ''order_id'') = None"
    by (simp add: calm_def)
  have "duplicate_check_query orders_rows = [(Some 20240101, Some 5, 3)]"
    by code_simp
  then have h3: "duplicate_check_query orders_rows \<noteq> []"
    by simp
  show ?thesis
    by (intro conjI h1 h2 h3 alert_contents [OF h1 h2 h3])
qed

text \<open>
  Claim C8 as it is written asks of the chat message what only the mail has. In the
  checker's run on the example database the chat message is the summary under its heading:
  it names neither the source host nor the replication task nor the column and gives no
  total. (The total of the mail counts groups: it is 1 here, for three copies of one row.)
\<close>

theorem chat_message_counterexample:
  "map_option trace (returned (get_duplicates_and_alert calm sales_db)) =
     Some [Connect,
           Execute (Detect ''sales.orders'' ''order_id''),
           Email ''Duplicate(s) found in sales.orders at 2024-01-03 06:00:00'' orders_mail_body,
           Slack ''https://hooks.example.org/T1'' orders_chat_message,
           Execute (Detect ''sales.items'' ''item_id''),
           ConnCommit] \<and>
   \<not> sublist ''src-db-1'' orders_chat_message \<and>
   \<not> sublist ''task-7'' orders_chat_message \<and>
   \<not> sublist ''order_id'' orders_chat_message \<and>
   \<not> sublist ''Total'' orders_chat_message"
  by code_simp

end
